theory Spec2Isabelle
  imports Main "HOL-Library.Sublist" "HOL-Library.AList"
begin

section \<open>Python strings\<close>

text \<open>
  A Python \<open>str\<close> is modelled as a \<open>string\<close> whose characters stand for the code points
  below 256. The whitespace characters of \<open>str.isspace\<close>, \<open>str.strip\<close> and \<open>str.split\<close> in
  that range are TAB, LF, VT, FF, CR, the four separators 28..31, SPACE, NEL (133) and
  NBSP (160).
\<close>

definition isspace :: "char \<Rightarrow> bool" where
  "isspace c = ((of_char c :: nat) \<in> set [9, 10, 11, 12, 13, 28, 29, 30, 31, 32, 133, 160])"

definition lstrip :: "string \<Rightarrow> string" where
  "lstrip s = dropWhile isspace s"

definition rstrip :: "string \<Rightarrow> string" where
  "rstrip s = rev (dropWhile isspace (rev s))"

definition strip :: "string \<Rightarrow> string" where
  "strip s = lstrip (rstrip s)"

definition startswith :: "string \<Rightarrow> string \<Rightarrow> bool" where
  "startswith s p = (take (length p) s = p)"

text \<open>\<open>str.lower\<close> on code points below 256: the ASCII capitals and the Latin-1 capitals
  192..222 (the multiplication sign 215 apart) move up by 32.\<close>

definition lower_char :: "char \<Rightarrow> char" where
  "lower_char c =
     (let n = (of_char c :: nat)
      in if (65 \<le> n \<and> n \<le> 90) \<or> (192 \<le> n \<and> n \<le> 222 \<and> n \<noteq> 215)
         then char_of (n + 32) else c)"

definition lower :: "string \<Rightarrow> string" where
  "lower s = map lower_char s"

text \<open>\<open>s.split()\<close>: the maximal runs of non-whitespace characters, in order.\<close>

fun split_ws :: "string \<Rightarrow> string list" where
  "split_ws [] = []"
| "split_ws [c] = (if isspace c then [] else [[c]])"
| "split_ws (c # d # s) =
     (if isspace c then split_ws (d # s)
      else if isspace d then [c] # split_ws (d # s)
      else (case split_ws (d # s) of [] \<Rightarrow> [[c]] | w # ws \<Rightarrow> (c # w) # ws))"

text \<open>\<open>s.split(sep)\<close> for a one-character separator: never the empty list.\<close>

fun split_on :: "char \<Rightarrow> string \<Rightarrow> string list" where
  "split_on sep [] = [[]]"
| "split_on sep (c # s) =
     (if c = sep then [] # split_on sep s
      else (case split_on sep s of [] \<Rightarrow> [[c]] | w # ws \<Rightarrow> (c # w) # ws))"

text \<open>\<open>s.replace(old, new)\<close> for a one-character \<open>old\<close>.\<close>

definition replace :: "char \<Rightarrow> string \<Rightarrow> string \<Rightarrow> string" where
  "replace old new s = concat (map (\<lambda>c. if c = old then new else [c]) s)"

text \<open>\<open>sub in s\<close> for strings.\<close>

fun contains :: "string \<Rightarrow> string \<Rightarrow> bool" where
  "contains [] sub = (sub = [])"
| "contains (c # s) sub = (startswith (c # s) sub \<or> contains s sub)"

text \<open>\<open>sep.join(xs)\<close>.\<close>

fun join :: "string \<Rightarrow> string list \<Rightarrow> string" where
  "join sep [] = []"
| "join sep [x] = x"
| "join sep (x # y # xs) = x @ sep @ join sep (y # xs)"

text \<open>
  \<open>int(s)\<close> in base 10: surrounding whitespace is stripped, one sign is allowed, and the
  digits may be grouped by single underscores between digits. \<open>None\<close> stands for the
  \<open>ValueError\<close>. CPython refuses more than 4300 digits by default.
\<close>

definition digit_val :: "char \<Rightarrow> nat option" where
  "digit_val c =
     (let n = (of_char c :: nat) in if 48 \<le> n \<and> n \<le> 57 then Some (n - 48) else None)"

fun parse_digits :: "nat \<Rightarrow> bool \<Rightarrow> string \<Rightarrow> nat option" where
  "parse_digits acc prev [] = (if prev then Some acc else None)"
| "parse_digits acc prev (c # s) =
     (if c = CHR ''_'' then (if prev then parse_digits acc False s else None)
      else (case digit_val c of
              None \<Rightarrow> None
            | Some d \<Rightarrow> parse_digits (10 * acc + d) True s))"

definition max_str_digits :: nat where
  "max_str_digits = 4300"

definition py_int :: "string \<Rightarrow> int option" where
  "py_int s =
     (let t = strip s;
          neg = (t \<noteq> [] \<and> hd t = CHR ''-'');
          body = (if t \<noteq> [] \<and> (hd t = CHR ''-'' \<or> hd t = CHR ''+'') then tl t else t)
      in if max_str_digits < length (filter (\<lambda>c. digit_val c \<noteq> None) body) then None
         else (case parse_digits 0 False body of
                 None \<Rightarrow> None
               | Some n \<Rightarrow> Some (if neg then - int n else int n)))"

text \<open>\<open>str(n)\<close> for a natural number.\<close>

fun str_nat :: "nat \<Rightarrow> string" where
  "str_nat n = (if n < 10 then [char_of (48 + n)] else str_nat (n div 10) @ [char_of (48 + n mod 10)])"

section \<open>The document, as the parser hands it over\<close>

datatype error = AttributeError | TypeError | ValueError | IndexError

text \<open>
  The run properties element \<open>run._element.rPr\<close>: \<open>sz_elem\<close> is its first \<open>w:sz\<close>
  descendant (\<open>None\<close> when there is none, otherwise the \<open>w:val\<close> attribute, itself
  optional), \<open>b_elem\<close> says whether it has a \<open>w:b\<close> descendant.
\<close>

record run_props =
  sz_elem :: "string option option"
  b_elem :: bool

text \<open>
  A drawing of a run. \<open>inline\<close> and \<open>anchor\<close> are its first \<open>wp:inline\<close> and \<open>wp:anchor\<close>
  descendants; of such an element, \<open>blip\<close> is the first \<open>a:blip\<close> descendant (given by its
  \<open>r:embed\<close> attribute, which may be missing) and \<open>docPr\<close> the first \<open>wp:docPr\<close>
  descendant (given by its \<open>descr\<close> attribute, which may be missing).
\<close>

record inline_or_anchor =
  blip :: "string option option"
  docPr :: "string option option"

record drawing =
  inline :: "inline_or_anchor option"
  anchor :: "inline_or_anchor option"

text \<open>\<open>run.font\<close>: an object with an optional \<open>name\<close>.\<close>

datatype font = Font (name: "string option")

text \<open>
  A run: \<open>run.text\<close>, \<open>run._element.rPr\<close>, \<open>run.font\<close> (\<open>None\<close> for an object that tests
  false; the parser's font objects always test true) and the \<open>w:drawing\<close> descendants of
  \<open>run._element\<close> in document order. Every run has its \<open>_element\<close>.
\<close>

record run =
  run_text :: string
  rPr :: "run_props option"
  font :: "font option"
  drawings :: "drawing list"

text \<open>A paragraph: \<open>paragraph.style.name\<close> (a style may have no name) and its runs.\<close>

record para =
  style_name :: "string option"
  runs :: "run list"

section \<open>Heading levels\<close>

text \<open>The loop of lines 56 to 59: the properties of the first run that has any.\<close>

fun first_rPr :: "run list \<Rightarrow> run_props option" where
  "first_rPr [] = None"
| "first_rPr (r # rs) = (case rPr r of Some x \<Rightarrow> Some x | None \<Rightarrow> first_rPr rs)"

text \<open>\<open>int(sz_elem.get(qn('w:val')))\<close>: \<open>TypeError\<close> on a missing attribute, \<open>ValueError\<close>
  on text that is no integer.\<close>

definition int_of_val :: "string option \<Rightarrow> error + int" where
  "int_of_val v =
     (case v of
        None \<Rightarrow> Inl TypeError
      | Some s \<Rightarrow> (case py_int s of None \<Rightarrow> Inl ValueError | Some n \<Rightarrow> Inr n))"

text \<open>Lines 73 to 78: the bold check, and the final \<open>return 0\<close>.\<close>

definition bold_level :: "run_props \<Rightarrow> int" where
  "bold_level run_props = (if b_elem run_props then 3 else 0)"

text \<open>The body of the \<open>try\<close> of \<open>get_heading_level\<close>, lines 46 to 78.\<close>

definition heading_level_try :: "para \<Rightarrow> error + int" where
  "heading_level_try p =
     (case style_name p of
        None \<Rightarrow> Inl AttributeError
      | Some sn \<Rightarrow>
          if startswith sn ''Heading'' then
            (case split_ws sn of
               [] \<Rightarrow> Inl IndexError
             | t # ts \<Rightarrow>
                 (case py_int (last (t # ts)) of None \<Rightarrow> Inl ValueError | Some n \<Rightarrow> Inr n))
          else if sn = ''Title'' then Inr 1
          else
            (case first_rPr (runs p) of
               None \<Rightarrow> Inr 0
             | Some run_props \<Rightarrow>
                 (case sz_elem run_props of
                    None \<Rightarrow> Inr (bold_level run_props)
                  | Some v \<Rightarrow>
                      (case int_of_val v of
                         Inl e \<Rightarrow> Inl e
                       | Inr n \<Rightarrow>
                           (let size = n div 2
                            in if size \<ge> 20 then Inr 1
                               else if size \<ge> 16 then Inr 2
                               else if size \<ge> 14 then Inr 3
                               else Inr (bold_level run_props))))))"

text \<open>\<open>get_heading_level\<close>: every exception of the body is logged and answered by 0.\<close>

definition get_heading_level :: "para \<Rightarrow> int" where
  "get_heading_level p = (case heading_level_try p of Inl e \<Rightarrow> 0 | Inr n \<Rightarrow> n)"

section \<open>Linearising the runs of a paragraph\<close>

text \<open>An entry of \<open>paragraph_content\<close>: the dictionary with its \<open>type\<close> and \<open>content\<close>.\<close>

datatype content_item = is_image: Image (content: string) | is_text: Text (content: string)

text \<open>Lines 190 to 192: the inline element, or else the anchor.\<close>

definition inline_or_anchor_of :: "drawing \<Rightarrow> inline_or_anchor option" where
  "inline_or_anchor_of element =
     (case inline element of None \<Rightarrow> anchor element | Some x \<Rightarrow> Some x)"

text \<open>Lines 199 to 201: the description, \<open>Image\<close> by default, on one line and stripped.\<close>

definition alt_text_of :: "inline_or_anchor \<Rightarrow> string" where
  "alt_text_of ioa =
     strip (replace (CHR 0x0A) '' ''
       (case docPr ioa of
          None \<Rightarrow> ''Image''
        | Some d \<Rightarrow> (case d of None \<Rightarrow> ''Image'' | Some s \<Rightarrow> s)))"

text \<open>
  Lines 189 to 208 for one drawing: the image item it appends, if any. \<open>refs\<close> is the
  dictionary \<open>image_refs\<close>, an association list; a missing \<open>r:embed\<close> attribute is the key
  \<open>None\<close>, which no dictionary of \<open>extract_images\<close> holds.
\<close>

definition drawing_item :: "(string \<times> string) list \<Rightarrow> drawing \<Rightarrow> content_item option" where
  "drawing_item refs element =
     (case inline_or_anchor_of element of
        None \<Rightarrow> None
      | Some ioa \<Rightarrow>
          (case blip ioa of
             None \<Rightarrow> None
           | Some embed_attr \<Rightarrow>
               (case embed_attr of
                  None \<Rightarrow> None
                | Some rId \<Rightarrow>
                    (case map_of refs rId of
                       None \<Rightarrow> None
                     | Some path \<Rightarrow>
                         Some (Image (''!['' @ alt_text_of ioa @ '']('' @ path @ '')''))))))"

text \<open>Lines 184 to 217 for one run: the images of its drawings and \<open>has_image\<close>, then
  the raw text when it is not blank and no image was appended.\<close>

definition run_items :: "(string \<times> string) list \<Rightarrow> run \<Rightarrow> content_item list" where
  "run_items refs r =
     (let images = List.map_filter (drawing_item refs) (drawings r);
          has_image = (images \<noteq> [])
      in images @ (if strip (run_text r) \<noteq> [] \<and> \<not> has_image then [Text (run_text r)] else []))"

definition paragraph_content :: "(string \<times> string) list \<Rightarrow> para \<Rightarrow> content_item list" where
  "paragraph_content refs p = concat (map (run_items refs) (runs p))"

section \<open>Classifying and emitting paragraphs\<close>

text \<open>Lines 234 to 237. \<open>paragraph.style.name.lower()\<close> raises on a style without a name,
  and nothing catches it before the handlers of \<open>convert_to_markdown\<close>.\<close>

definition monospace :: "font \<Rightarrow> bool" where
  "monospace f = (case name f of None \<Rightarrow> False | Some n \<Rightarrow> n \<in> set [''Consolas'', ''Courier New''])"

definition is_code :: "para \<Rightarrow> error + bool" where
  "is_code p =
     (case style_name p of
        None \<Rightarrow> Inl AttributeError
      | Some sn \<Rightarrow>
          Inr (startswith (lower sn) ''code'' \<or> list_all monospace (List.map_filter font (runs p))))"

definition fence :: string where
  "fence = replicate 3 (CHR 0x60)"

text \<open>The joins of lines 230, 245 and 260.\<close>

definition text_of :: "content_item list \<Rightarrow> string" where
  "text_of items = concat (map content (filter is_text items))"

definition combined_of :: "content_item list \<Rightarrow> string" where
  "combined_of items = concat (map content items)"

text \<open>
  The body of the paragraph loop, lines 181 to 266, on the pair of \<open>in_code_block\<close> and
  \<open>md_content\<close>.
\<close>

definition emit_paragraph ::
  "(string \<times> string) list \<Rightarrow> para \<Rightarrow> bool \<times> string list \<Rightarrow> error + bool \<times> string list" where
  "emit_paragraph refs p st =
     (let in_code_block = fst st; md_content = snd st; items = paragraph_content refs p
      in if items \<noteq> [] then
           (let heading_level = get_heading_level p
            in if heading_level > 0 then
                 (let md1 = (if in_code_block then md_content @ [fence, ''''] else md_content)
                  in Inr (False,
                       md1 @ [replicate (nat heading_level) (CHR ''#'') @ '' '' @ text_of items]))
               else
                 (case is_code p of
                    Inl e \<Rightarrow> Inl e
                  | Inr code \<Rightarrow>
                      if code then
                        (let md1 = (if \<not> in_code_block then md_content @ ['''', fence]
                                    else md_content)
                         in Inr (True, md1 @ [replace (CHR 0x09) ''    '' (text_of items)]))
                      else
                        (let md1 = (if in_code_block then md_content @ [fence, '''']
                                    else md_content)
                         in if length items = 1 \<and> is_image (hd items) then
                              Inr (False, md1 @ ['''', content (hd items), ''''])
                            else if strip (combined_of items) \<noteq> [] then
                              Inr (False, md1 @ [combined_of items])
                            else Inr (False, md1))))
         else if \<not> in_code_block then Inr (in_code_block, md_content @ [''''])
         else Inr (in_code_block, md_content))"

fun emit_paragraphs ::
  "(string \<times> string) list \<Rightarrow> para list \<Rightarrow> bool \<times> string list \<Rightarrow> error + bool \<times> string list" where
  "emit_paragraphs refs [] st = Inr st"
| "emit_paragraphs refs (p # ps) st =
     (case emit_paragraph refs p st of
        Inl e \<Rightarrow> Inl e
      | Inr st' \<Rightarrow> emit_paragraphs refs ps st')"

text \<open>Lines 268 to 271.\<close>

definition close_code_block :: "bool \<times> string list \<Rightarrow> string list" where
  "close_code_block st = (if fst st then snd st @ [fence, ''''] else snd st)"

text \<open>Lines 273 to 282, on the pair of \<open>cleaned_content\<close> and \<open>last_was_blank\<close>.\<close>

fun clean_loop :: "string list \<Rightarrow> string list \<times> bool \<Rightarrow> string list \<times> bool" where
  "clean_loop [] st = st"
| "clean_loop (line # rest) (cleaned, last_was_blank) =
     (if strip line \<noteq> [] then clean_loop rest (cleaned @ [line], False)
      else if \<not> last_was_blank then clean_loop rest (cleaned @ [line], True)
      else clean_loop rest (cleaned, last_was_blank))"

definition cleaned_content :: "string list \<Rightarrow> string list" where
  "cleaned_content md_content = fst (clean_loop md_content ([], False))"

text \<open>Lines 176 to 282: the lines written for the paragraphs of a document.\<close>

definition markdown_lines :: "(string \<times> string) list \<Rightarrow> para list \<Rightarrow> error + string list" where
  "markdown_lines refs ps =
     (case emit_paragraphs refs ps (False, []) of
        Inl e \<Rightarrow> Inl e
      | Inr st \<Rightarrow> Inr (cleaned_content (close_code_block st)))"

text \<open>The branch of the paragraph loop a paragraph takes.\<close>

datatype kind = Heading int | Code | ImageOnly | Normal | Empty

definition classify :: "(string \<times> string) list \<Rightarrow> para \<Rightarrow> error + kind" where
  "classify refs p =
     (let items = paragraph_content refs p
      in if items \<noteq> [] then
           (if get_heading_level p > 0 then Inr (Heading (get_heading_level p))
            else
              (case is_code p of
                 Inl e \<Rightarrow> Inl e
               | Inr code \<Rightarrow>
                   if code then Inr Code
                   else if length items = 1 \<and> is_image (hd items) then Inr ImageOnly
                   else Inr Normal))
         else Inr Empty)"

section \<open>The emitter with the origin of every line\<close>

text \<open>
  The same loop, recording with each line the statement that appended it: the opening
  fence of line 242, a closing fence of lines 225, 249 and 270, or anything else. A
  paragraph whose text is three backquotes yields a \<open>Body\<close> line that reads like a fence.
\<close>

datatype origin = Opening | Closing | Body

definition emit_paragraph_tr ::
  "(string \<times> string) list \<Rightarrow> para \<Rightarrow> bool \<times> (origin \<times> string) list
    \<Rightarrow> error + bool \<times> (origin \<times> string) list" where
  "emit_paragraph_tr refs p st =
     (let in_code_block = fst st; md_content = snd st; items = paragraph_content refs p
      in if items \<noteq> [] then
           (let heading_level = get_heading_level p
            in if heading_level > 0 then
                 (let md1 = (if in_code_block then md_content @ [(Closing, fence), (Body, '''')]
                             else md_content)
                  in Inr (False,
                       md1 @ [(Body, replicate (nat heading_level) (CHR ''#'') @ '' '' @ text_of items)]))
               else
                 (case is_code p of
                    Inl e \<Rightarrow> Inl e
                  | Inr code \<Rightarrow>
                      if code then
                        (let md1 = (if \<not> in_code_block
                                    then md_content @ [(Body, ''''), (Opening, fence)]
                                    else md_content)
                         in Inr (True, md1 @ [(Body, replace (CHR 0x09) ''    '' (text_of items))]))
                      else
                        (let md1 = (if in_code_block
                                    then md_content @ [(Closing, fence), (Body, '''')]
                                    else md_content)
                         in if length items = 1 \<and> is_image (hd items) then
                              Inr (False,
                                md1 @ [(Body, ''''), (Body, content (hd items)), (Body, '''')])
                            else if strip (combined_of items) \<noteq> [] then
                              Inr (False, md1 @ [(Body, combined_of items)])
                            else Inr (False, md1))))
         else if \<not> in_code_block then Inr (in_code_block, md_content @ [(Body, '''')])
         else Inr (in_code_block, md_content))"

fun emit_paragraphs_tr ::
  "(string \<times> string) list \<Rightarrow> para list \<Rightarrow> bool \<times> (origin \<times> string) list
    \<Rightarrow> error + bool \<times> (origin \<times> string) list" where
  "emit_paragraphs_tr refs [] st = Inr st"
| "emit_paragraphs_tr refs (p # ps) st =
     (case emit_paragraph_tr refs p st of
        Inl e \<Rightarrow> Inl e
      | Inr st' \<Rightarrow> emit_paragraphs_tr refs ps st')"

definition close_code_block_tr :: "bool \<times> (origin \<times> string) list \<Rightarrow> (origin \<times> string) list" where
  "close_code_block_tr st =
     (if fst st then snd st @ [(Closing, fence), (Body, '''')] else snd st)"

fun clean_loop_tr ::
  "(origin \<times> string) list \<Rightarrow> (origin \<times> string) list \<times> bool
    \<Rightarrow> (origin \<times> string) list \<times> bool" where
  "clean_loop_tr [] st = st"
| "clean_loop_tr (line # rest) (cleaned, last_was_blank) =
     (if strip (snd line) \<noteq> [] then clean_loop_tr rest (cleaned @ [line], False)
      else if \<not> last_was_blank then clean_loop_tr rest (cleaned @ [line], True)
      else clean_loop_tr rest (cleaned, last_was_blank))"

definition cleaned_content_tr :: "(origin \<times> string) list \<Rightarrow> (origin \<times> string) list" where
  "cleaned_content_tr md_content = fst (clean_loop_tr md_content ([], False))"

definition markdown_trace ::
  "(string \<times> string) list \<Rightarrow> para list \<Rightarrow> error + (origin \<times> string) list" where
  "markdown_trace refs ps =
     (case emit_paragraphs_tr refs ps (False, []) of
        Inl e \<Rightarrow> Inl e
      | Inr st \<Rightarrow> Inr (cleaned_content_tr (close_code_block_tr st)))"

text \<open>
  Reading the fences of a trace from left to right: \<open>None\<close> when a fence is opened inside
  a code block or closed outside one, otherwise whether the trace ends inside a block.
\<close>

fun fence_state :: "bool \<Rightarrow> origin list \<Rightarrow> bool option" where
  "fence_state inside [] = Some inside"
| "fence_state inside (Opening # os) = (if inside then None else fence_state True os)"
| "fence_state inside (Closing # os) = (if inside then fence_state False os else None)"
| "fence_state inside (Body # os) = fence_state inside os"

definition balanced :: "origin list \<Rightarrow> bool" where
  "balanced os = (fence_state False os = Some False)"

text \<open>The number of lines of a trace that one kind of statement appended.\<close>

definition count_origin :: "origin \<Rightarrow> (origin \<times> string) list \<Rightarrow> nat" where
  "count_origin x t = length (filter (\<lambda>l. fst l = x) t)"

section \<open>The post-pass, as the specification words it\<close>

text \<open>A line is blank when stripping leaves nothing of it.\<close>

definition blank :: "string \<Rightarrow> bool" where
  "blank line = (strip line = [])"

text \<open>Every run of blank lines keeps its first line only.\<close>

fun collapse :: "string list \<Rightarrow> string list" where
  "collapse [] = []"
| "collapse [x] = [x]"
| "collapse (x # y # ls) =
     (if blank x \<and> blank y then collapse (x # ls) else x # collapse (y # ls))"

text \<open>No two neighbours of a list of lines are both blank.\<close>

fun no_double_blank :: "string list \<Rightarrow> bool" where
  "no_double_blank [] = True"
| "no_double_blank [x] = True"
| "no_double_blank (x # y # ls) = (\<not> (blank x \<and> blank y) \<and> no_double_blank (y # ls))"

section \<open>Extracting the images\<close>

text \<open>
  Reading an attribute of an object that the parser hands over. Either the object has no
  such attribute, and \<open>hasattr\<close> answers \<open>False\<close>; or reading it raises an exception other
  than \<open>AttributeError\<close>, which \<open>hasattr\<close> lets through, and whose text is kept; or the
  attribute has a value. The parser raises a \<open>ValueError\<close> on \<open>target_part\<close> for a
  relationship whose target is external, as that of a linked image is.
\<close>

datatype 'a attribute = Missing | Raises string | Has 'a

text \<open>A part of the package with its \<open>blob\<close>, and a relationship of \<open>doc.part.rels\<close>.\<close>

datatype part = Part (blob: "string attribute")

record rel =
  reltype :: string
  rId :: string
  target_ref :: string
  target_part :: "part attribute"

text \<open>The counters of \<open>ConversionStats\<close>; they only ever grow from 0.\<close>

record conversion_stats =
  total_files :: nat
  successful_files :: "string list"
  failed_files :: "(string \<times> string) list"
  total_images :: nat
  failed_images :: "(string \<times> string) list"
  file_image_counts :: "(string \<times> nat) list"

text \<open>
  The variables of the loop of \<open>extract_images\<close>, with the statistics object and the
  files written so far (path and bytes, in the order of writing).
\<close>

record extraction =
  image_refs :: "(string \<times> string) list"
  file_image_count :: nat
  stats :: conversion_stats
  files :: "(string \<times> string) list"

text \<open>
  The condition of lines 91 to 93, which stands outside the inner \<open>try\<close>, and the bytes
  that line 96 reads when it holds. \<open>Inl e\<close>: one of the two \<open>hasattr\<close> calls raises with
  the text \<open>e\<close>. \<open>Inr None\<close>: the condition is false. \<open>Inr (Some image_data)\<close>: the
  condition is true and the blob is \<open>image_data\<close>. The conjunction reads \<open>target_part\<close>
  only for a relationship whose type holds \<open>image\<close>.
\<close>

definition image_data_of :: "rel \<Rightarrow> string + string option" where
  "image_data_of r =
     (if contains (reltype r) ''image'' then
        (case target_part r of
           Missing \<Rightarrow> Inr None
         | Raises e \<Rightarrow> Inl e
         | Has pt \<Rightarrow>
             (case blob pt of
                Missing \<Rightarrow> Inr None
              | Raises e \<Rightarrow> Inl e
              | Has image_data \<Rightarrow> Inr (Some image_data)))
      else Inr None)"

text \<open>Lines 100 to 104.\<close>

definition image_ext_of :: "rel \<Rightarrow> string" where
  "image_ext_of r =
     (let image_ext = lower (last (split_on (CHR ''.'') (target_ref r)))
      in if image_ext \<in> set [''png'', ''jpg'', ''jpeg'', ''gif'', ''bmp''] then image_ext
         else ''png'')"

text \<open>Line 107.\<close>

definition image_filename_of :: "string \<Rightarrow> nat \<Rightarrow> string \<Rightarrow> string" where
  "image_filename_of doc_name n image_ext =
     doc_name @ ''_image_'' @ str_nat n @ ''.'' @ image_ext"

text \<open>\<open>os.path.join\<close> of a directory and a file name that holds no separator.\<close>

definition path_join :: "string \<Rightarrow> string \<Rightarrow> string" where
  "path_join dir file =
     (if dir = [] \<or> last dir = CHR ''/'' then dir @ file else dir @ ''/'' @ file)"

text \<open>Lines 118 and 132.\<close>

definition failure_message :: "nat \<Rightarrow> string \<Rightarrow> string \<Rightarrow> string" where
  "failure_message n doc_name e =
     ''Failed to extract image '' @ str_nat n @ '' from '' @ doc_name @ '': '' @ e"

definition process_failure_message :: "string \<Rightarrow> string \<Rightarrow> string" where
  "process_failure_message doc_name e = ''Failed to process images in '' @ doc_name @ '': '' @ e"

text \<open>
  The body of the loop, lines 91 to 120. The file system is the function \<open>wr\<close>: on a path
  and the bytes to write there it answers \<open>None\<close> when lines 111 and 112 succeed, and the
  text of the exception when they fail. \<open>Inl e\<close>: the condition of lines 91 to 93 raises,
  before anything is changed, and the exception leaves the loop.
\<close>

definition extract_rel ::
  "(string \<Rightarrow> string \<Rightarrow> string option) \<Rightarrow> string \<Rightarrow> string \<Rightarrow> rel \<Rightarrow> extraction
    \<Rightarrow> string + extraction" where
  "extract_rel wr image_dir doc_name r st =
     (case image_data_of r of
        Inl e \<Rightarrow> Inl e
      | Inr None \<Rightarrow> Inr st
      | Inr (Some image_data) \<Rightarrow>
          if image_data = [] then Inr st
          else
            (let image_ext = image_ext_of r;
                 n = file_image_count st + 1;
                 image_filename = image_filename_of doc_name n image_ext;
                 image_path = path_join image_dir image_filename
             in case wr image_path image_data of
                  None \<Rightarrow>
                    Inr (st\<lparr>file_image_count := n,
                       image_refs := AList.update (rId r) (''./images/'' @ image_filename) (image_refs st),
                       files := files st @ [(image_path, image_data)]\<rparr>)
                | Some e \<Rightarrow>
                    Inr (st\<lparr>file_image_count := n,
                       stats := (stats st)\<lparr>failed_images :=
                         failed_images (stats st) @ [(doc_name, failure_message n doc_name e)]\<rparr>\<rparr>)))"

text \<open>
  The loop of line 89. It ends after the last relationship, or at the first relationship
  whose condition raises: then with the variables as they are and the text of the
  exception.
\<close>

fun extract_loop ::
  "(string \<Rightarrow> string \<Rightarrow> string option) \<Rightarrow> string \<Rightarrow> string \<Rightarrow> rel list \<Rightarrow> extraction
    \<Rightarrow> extraction \<times> string option" where
  "extract_loop wr image_dir doc_name [] st = (st, None)"
| "extract_loop wr image_dir doc_name (r # rs) st =
     (case extract_rel wr image_dir doc_name r st of
        Inl e \<Rightarrow> (st, Some e)
      | Inr st' \<Rightarrow> extract_loop wr image_dir doc_name rs st')"

text \<open>
  \<open>extract_images\<close>: the loop from the empty dictionary and the count 0. After a loop that
  ends by itself, lines 123 and 124 update the statistics. After a loop that an exception
  leaves, the handler of lines 131 to 135 records a failure and the statistics get no
  count. Both ways return the dictionary as it is. The result is the dictionary, the
  statistics and the files written.
\<close>

definition extract_images ::
  "(string \<Rightarrow> string \<Rightarrow> string option) \<Rightarrow> string \<Rightarrow> string \<Rightarrow> rel list \<Rightarrow> conversion_stats
    \<Rightarrow> (string \<times> string) list \<times> conversion_stats \<times> (string \<times> string) list" where
  "extract_images wr image_dir doc_name rels stats0 =
     (case extract_loop wr image_dir doc_name rels
             \<lparr>image_refs = [], file_image_count = 0, stats = stats0, files = []\<rparr> of
        (st, None) \<Rightarrow>
          (image_refs st,
           (stats st)\<lparr>file_image_counts :=
                        AList.update doc_name (file_image_count st) (file_image_counts (stats st)),
                      total_images := total_images (stats st) + file_image_count st\<rparr>,
           files st)
      | (st, Some e) \<Rightarrow>
          (image_refs st,
           (stats st)\<lparr>failed_images :=
                        failed_images (stats st) @ [(doc_name, process_failure_message doc_name e)]\<rparr>,
           files st))"

text \<open>
  The relationships that the loop gets to, which are those before the first one whose
  condition raises, and the text of the exception that leaves the loop, if one does.
\<close>

fun reached :: "rel list \<Rightarrow> rel list" where
  "reached [] = []"
| "reached (r # rs) = (if isl (image_data_of r) then [] else r # reached rs)"

fun abort_of :: "rel list \<Rightarrow> string option" where
  "abort_of [] = None"
| "abort_of (r # rs) = (case image_data_of r of Inl e \<Rightarrow> Some e | Inr d \<Rightarrow> abort_of rs)"

text \<open>
  The relationships for which an extraction is started, the bytes of one, and the outcome
  of the write for the one that gets the sequence number \<open>n\<close>.
\<close>

definition attempted :: "rel \<Rightarrow> bool" where
  "attempted r =
     (case image_data_of r of
        Inl e \<Rightarrow> False
      | Inr None \<Rightarrow> False
      | Inr (Some image_data) \<Rightarrow> image_data \<noteq> [])"

definition payload :: "rel \<Rightarrow> string" where
  "payload r =
     (case image_data_of r of
        Inl e \<Rightarrow> []
      | Inr None \<Rightarrow> []
      | Inr (Some image_data) \<Rightarrow> image_data)"

definition outcome ::
  "(string \<Rightarrow> string \<Rightarrow> string option) \<Rightarrow> string \<Rightarrow> string \<Rightarrow> nat \<Rightarrow> rel \<Rightarrow> string option" where
  "outcome wr image_dir doc_name n r =
     wr (path_join image_dir (image_filename_of doc_name n (image_ext_of r))) (payload r)"

text \<open>The attempts of a list of relationships, numbered from \<open>n + 1\<close> in their order.\<close>

fun attempts :: "nat \<Rightarrow> rel list \<Rightarrow> (nat \<times> rel) list" where
  "attempts n [] = []"
| "attempts n (r # rs) = (if attempted r then (n + 1, r) # attempts (n + 1) rs else attempts n rs)"

section \<open>Notions the statements use\<close>

text \<open>The relationship id a drawing refers to: the \<open>r:embed\<close> attribute that lines 190 to
  197 reach, if they reach one.\<close>

definition referenced_id :: "drawing \<Rightarrow> string option" where
  "referenced_id element =
     (case inline_or_anchor_of element of
        None \<Rightarrow> None
      | Some ioa \<Rightarrow> (case blip ioa of None \<Rightarrow> None | Some embed_attr \<Rightarrow> embed_attr))"

text \<open>A drawing resolves when the id it refers to is a key of the dictionary.\<close>

definition resolves :: "(string \<times> string) list \<Rightarrow> drawing \<Rightarrow> bool" where
  "resolves refs element =
     (case referenced_id element of None \<Rightarrow> False | Some i \<Rightarrow> map_of refs i \<noteq> None)"

text \<open>
  The code test as the specification words it: the font names that the runs declare, and
  the test that ignores the runs that declare none and wants at least one declared name.
\<close>

definition declared_fonts :: "para \<Rightarrow> string list" where
  "declared_fonts p =
     List.map_filter (\<lambda>r. case font r of None \<Rightarrow> None | Some f \<Rightarrow> name f) (runs p)"

definition code_as_specified :: "para \<Rightarrow> bool" where
  "code_as_specified p =
     ((case style_name p of None \<Rightarrow> False | Some sn \<Rightarrow> startswith (lower sn) ''code'')
      \<or> (declared_fonts p \<noteq> []
          \<and> list_all (\<lambda>n. n \<in> set [''Consolas'', ''Courier New'']) (declared_fonts p)))"

text \<open>
  What an attempt with the sequence number \<open>n\<close> leaves behind: whether its write
  succeeded, the entry of the dictionary and the file of a successful write, and the
  record of a failed one.
\<close>

definition succeeded ::
  "(string \<Rightarrow> string \<Rightarrow> string option) \<Rightarrow> string \<Rightarrow> string \<Rightarrow> nat \<times> rel \<Rightarrow> bool" where
  "succeeded wr image_dir doc_name a = (outcome wr image_dir doc_name (fst a) (snd a) = None)"

definition ref_entry :: "string \<Rightarrow> nat \<times> rel \<Rightarrow> string \<times> string" where
  "ref_entry doc_name a =
     (rId (snd a), ''./images/'' @ image_filename_of doc_name (fst a) (image_ext_of (snd a)))"

definition file_entry :: "string \<Rightarrow> string \<Rightarrow> nat \<times> rel \<Rightarrow> string \<times> string" where
  "file_entry image_dir doc_name a =
     (path_join image_dir (image_filename_of doc_name (fst a) (image_ext_of (snd a))),
      payload (snd a))"

definition failure_entry ::
  "(string \<Rightarrow> string \<Rightarrow> string option) \<Rightarrow> string \<Rightarrow> string \<Rightarrow> nat \<times> rel
    \<Rightarrow> (string \<times> string) option" where
  "failure_entry wr image_dir doc_name a =
     (case outcome wr image_dir doc_name (fst a) (snd a) of
        None \<Rightarrow> None
      | Some e \<Rightarrow> Some (doc_name, failure_message (fst a) doc_name e))"

text \<open>The record that the handler of lines 131 to 135 appends when an exception leaves
  the loop.\<close>

definition abort_entry :: "string \<Rightarrow> rel list \<Rightarrow> (string \<times> string) list" where
  "abort_entry doc_name rels =
     (case abort_of rels of
        None \<Rightarrow> []
      | Some e \<Rightarrow> [(doc_name, process_failure_message doc_name e)])"

text \<open>
  The text that line 287 writes for the paragraphs of a document, and the lines of a
  text: what stands between its line feeds, the separator that line 287 joins with.
\<close>

definition newline :: char where
  "newline = CHR 0x0A"

definition written_text :: "(string \<times> string) list \<Rightarrow> para list \<Rightarrow> error + string" where
  "written_text refs ps =
     (case markdown_lines refs ps of
        Inl e \<Rightarrow> Inl e
      | Inr cleaned \<Rightarrow> Inr (join [newline] cleaned))"

definition lines_of :: "string \<Rightarrow> string list" where
  "lines_of s = split_on newline s"

section \<open>Heading levels: the range of the classifier\<close>

lemma split_ws_Nil_iff: "split_ws s = [] \<longleftrightarrow> (\<forall>c\<in>set s. isspace c)"
  by (induction s rule: split_ws.induct) (auto split: list.splits)

lemma startswith_Heading_split:
  assumes "startswith sn ''Heading''"
  shows "split_ws sn \<noteq> []"
proof -
  from assms have ne: "sn \<noteq> []" by (auto simp: startswith_def)
  with assms have "hd sn = CHR ''H''" by (cases sn) (auto simp: startswith_def)
  with ne have "CHR ''H'' \<in> set sn" by (metis hd_in_set)
  moreover have "\<not> isspace CHR ''H''" by (simp add: isspace_def)
  ultimately show ?thesis by (auto simp: split_ws_Nil_iff)
qed

lemma heading_level_other_style:
  assumes "style_name p = Some sn" "\<not> startswith sn ''Heading''"
  shows "get_heading_level p \<in> {0, 1, 2, 3}"
  using assms
  by (auto simp: get_heading_level_def heading_level_try_def Let_def bold_level_def
           split: option.splits sum.splits if_splits)

lemma heading_level_heading_style:
  assumes "style_name p = Some sn" "startswith sn ''Heading''"
  shows "get_heading_level p = (case py_int (last (split_ws sn)) of None \<Rightarrow> 0 | Some n \<Rightarrow> n)"
  using assms startswith_Heading_split[OF assms(2)]
  by (auto simp: get_heading_level_def heading_level_try_def split: option.splits list.splits)

lemma hashes_takeWhile:
  "length (takeWhile (\<lambda>c. c = CHR ''#'') (replicate k (CHR ''#'') @ '' '' @ s)) = k"
  by (induction k) auto

lemma classify_Heading_iff:
  "(classify refs p = Inr (Heading l)) =
     (paragraph_content refs p \<noteq> [] \<and> 0 < l \<and> l = get_heading_level p)"
  by (auto simp: classify_def Let_def split: sum.splits)

lemma emit_heading:
  assumes "paragraph_content refs p \<noteq> []" "0 < get_heading_level p"
  shows "emit_paragraph refs p st =
           Inr (False, (if fst st then snd st @ [fence, ''''] else snd st)
              @ [replicate (nat (get_heading_level p)) (CHR ''#'') @ '' ''
                   @ text_of (paragraph_content refs p)])"
  using assms by (simp add: emit_paragraph_def Let_def)

text \<open>
  Claim C2, as the code has it. The level of a paragraph whose style has no name is 0. For
  a style name that starts with \<open>Heading\<close> the level is the integer that the last word of
  the name reads as, whatever its size or sign, and 0 when that word is no integer. For
  every other style name the level is 0, 1, 2 or 3. A paragraph takes the heading branch
  exactly when it has content and its level is above 0, and the line appended there
  starts with exactly as many \<open>#\<close> characters as the level says.
\<close>

theorem heading_level_unclamped:
  "(case style_name p of
      None \<Rightarrow> get_heading_level p = 0
    | Some sn \<Rightarrow>
        if startswith sn ''Heading''
        then get_heading_level p = (case py_int (last (split_ws sn)) of None \<Rightarrow> 0 | Some n \<Rightarrow> n)
        else get_heading_level p \<in> {0, 1, 2, 3})
   \<and> (classify refs p = Inr (Heading l)) =
       (paragraph_content refs p \<noteq> [] \<and> 0 < l \<and> l = get_heading_level p)
   \<and> (paragraph_content refs p \<noteq> [] \<and> 0 < get_heading_level p \<longrightarrow>
        (\<exists>md line. emit_paragraph refs p st = Inr (False, md @ [line])
           \<and> length (takeWhile (\<lambda>c. c = CHR ''#'') line) = nat (get_heading_level p)))"
proof (intro conjI impI)
  show "case style_name p of
      None \<Rightarrow> get_heading_level p = 0
    | Some sn \<Rightarrow>
        if startswith sn ''Heading''
        then get_heading_level p = (case py_int (last (split_ws sn)) of None \<Rightarrow> 0 | Some n \<Rightarrow> n)
        else get_heading_level p \<in> {0, 1, 2, 3}"
  proof (cases "style_name p")
    case None
    then show ?thesis by (simp add: get_heading_level_def heading_level_try_def)
  next
    case (Some sn)
    then show ?thesis
      using heading_level_heading_style[of p sn] heading_level_other_style[of p sn] by simp
  qed
next
  show "(classify refs p = Inr (Heading l)) =
       (paragraph_content refs p \<noteq> [] \<and> 0 < l \<and> l = get_heading_level p)"
    by (rule classify_Heading_iff)
next
  assume h: "paragraph_content refs p \<noteq> [] \<and> 0 < get_heading_level p"
  show "\<exists>md line. emit_paragraph refs p st = Inr (False, md @ [line])
           \<and> length (takeWhile (\<lambda>c. c = CHR ''#'') line) = nat (get_heading_level p)"
    using emit_heading[of refs p st] h hashes_takeWhile by blast
qed

text \<open>The theorem at a paragraph of style \<open>Heading 2\<close> that ends a code block.\<close>

theorem heading_level_unclamped_witness:
  "paragraph_content []
     \<lparr>style_name = Some ''Heading 2'',
      runs = [\<lparr>run_text = ''Scope'', rPr = None, font = Some (Font None), drawings = []\<rparr>]\<rparr> \<noteq> []
   \<and> get_heading_level
     \<lparr>style_name = Some ''Heading 2'',
      runs = [\<lparr>run_text = ''Scope'', rPr = None, font = Some (Font None), drawings = []\<rparr>]\<rparr> = 2
   \<and> (\<exists>md line. emit_paragraph []
     \<lparr>style_name = Some ''Heading 2'',
      runs = [\<lparr>run_text = ''Scope'', rPr = None, font = Some (Font None), drawings = []\<rparr>]\<rparr>
       (True, [''x'']) = Inr (False, md @ [line])
           \<and> length (takeWhile (\<lambda>c. c = CHR ''#'') line) = 2)"
proof -
  let ?p = "\<lparr>style_name = Some ''Heading 2'',
    runs = [\<lparr>run_text = ''Scope'', rPr = None, font = Some (Font None), drawings = []\<rparr>]\<rparr>"
  have c: "paragraph_content [] ?p \<noteq> []" by code_simp
  have l: "get_heading_level ?p = 2" by code_simp
  show ?thesis
    using heading_level_unclamped[of ?p "[]" 2 "(True, [''x''])"] c l by simp
qed

text \<open>
  Claim C2 as it is worded fails at the built-in style \<open>Heading 7\<close>: the level is 7, and
  the heading is written with seven \<open>#\<close> characters.
\<close>

theorem heading_level_seven:
  "get_heading_level
     \<lparr>style_name = Some ''Heading 7'',
      runs = [\<lparr>run_text = ''Annex'', rPr = None, font = Some (Font None), drawings = []\<rparr>]\<rparr> = 7
   \<and> markdown_lines []
       [\<lparr>style_name = Some ''Heading 7'',
         runs = [\<lparr>run_text = ''Annex'', rPr = None, font = Some (Font None), drawings = []\<rparr>]\<rparr>]
       = Inr [''####### Annex'']"
  by code_simp

section \<open>Heading levels: font size and bold\<close>




section \<open>The items of a run\<close>

lemma drawing_item_None_iff: "(drawing_item refs d = None) = (\<not> resolves refs d)"
  by (auto simp: drawing_item_def resolves_def referenced_id_def split: option.splits)

lemma drawing_item_is_image: "drawing_item refs d = Some it \<Longrightarrow> is_image it"
  by (auto simp: drawing_item_def split: option.splits)

lemma map_filter_Nil_iff: "(List.map_filter f xs = []) = (\<forall>x\<in>set xs. f x = None)"
  by (induction xs) (auto split: option.splits)

lemma length_map_filter: "length (List.map_filter f xs) = length (filter (\<lambda>x. f x \<noteq> None) xs)"
  by (induction xs) (auto split: option.splits)

lemma images_all_image: "list_all is_image (List.map_filter (drawing_item refs) ds)"
  by (induction ds) (auto simp: drawing_item_is_image split: option.splits)

lemma run_items_resolved:
  assumes "list_ex (resolves refs) (drawings r)"
  shows "run_items refs r = List.map_filter (drawing_item refs) (drawings r)"
    and "run_items refs r \<noteq> []"
proof -
  from assms have "List.map_filter (drawing_item refs) (drawings r) \<noteq> []"
    by (auto simp: map_filter_Nil_iff list_ex_iff drawing_item_None_iff)
  then show "run_items refs r = List.map_filter (drawing_item refs) (drawings r)"
    and "run_items refs r \<noteq> []"
    by (simp_all add: run_items_def Let_def)
qed

lemma run_items_unresolved:
  assumes "\<not> list_ex (resolves refs) (drawings r)"
  shows "run_items refs r = (if strip (run_text r) \<noteq> [] then [Text (run_text r)] else [])"
proof -
  from assms have "List.map_filter (drawing_item refs) (drawings r) = []"
    by (auto simp: map_filter_Nil_iff list_ex_iff drawing_item_None_iff)
  then show ?thesis by (simp add: run_items_def Let_def)
qed

lemma paragraph_content_append:
  "paragraph_content refs (p\<lparr>runs := rs @ rs'\<rparr>) =
     paragraph_content refs (p\<lparr>runs := rs\<rparr>) @ paragraph_content refs (p\<lparr>runs := rs'\<rparr>)"
  by (simp add: paragraph_content_def)

text \<open>
  Claim C8. The items of a paragraph are the items of its runs, in the order of the runs:
  those of a run stand after those of every earlier run and before those of every later
  one. A run with a drawing that resolves yields image items only, one for each of its
  drawings that resolves, and no text item whatever its text. A run without such a
  drawing yields one text item holding its text as it is when stripping leaves something
  of the text, and nothing otherwise.
\<close>

theorem run_linearization:
  "paragraph_content refs (p\<lparr>runs := rs @ r # rs'\<rparr>) =
     paragraph_content refs (p\<lparr>runs := rs\<rparr>) @ run_items refs r
       @ paragraph_content refs (p\<lparr>runs := rs'\<rparr>)
   \<and> (if list_ex (resolves refs) (drawings r)
       then run_items refs r \<noteq> [] \<and> list_all is_image (run_items refs r)
            \<and> length (run_items refs r) = length (filter (resolves refs) (drawings r))
       else if strip (run_text r) \<noteq> [] then run_items refs r = [Text (run_text r)]
       else run_items refs r = [])"
proof (intro conjI)
  show "paragraph_content refs (p\<lparr>runs := rs @ r # rs'\<rparr>) =
     paragraph_content refs (p\<lparr>runs := rs\<rparr>) @ run_items refs r
       @ paragraph_content refs (p\<lparr>runs := rs'\<rparr>)"
    by (simp add: paragraph_content_def)
next
  show "if list_ex (resolves refs) (drawings r)
       then run_items refs r \<noteq> [] \<and> list_all is_image (run_items refs r)
            \<and> length (run_items refs r) = length (filter (resolves refs) (drawings r))
       else if strip (run_text r) \<noteq> [] then run_items refs r = [Text (run_text r)]
       else run_items refs r = []"
  proof (cases "list_ex (resolves refs) (drawings r)")
    case True
    have "length (List.map_filter (drawing_item refs) (drawings r))
            = length (filter (resolves refs) (drawings r))"
      by (simp add: length_map_filter drawing_item_None_iff)
    with True show ?thesis
      using run_items_resolved[OF True] images_all_image[of refs "drawings r"] by simp
  next
    case False
    then show ?thesis using run_items_unresolved[OF False] by simp
  qed
qed

text \<open>The theorem at a run with the text \<open>caption\<close> and one drawing that resolves.\<close>

theorem run_linearization_witness:
  "list_ex (resolves [(''rId5'', ''./images/doc_image_1.png'')])
     (drawings \<lparr>run_text = ''caption'', rPr = None, font = Some (Font None),
        drawings = [\<lparr>inline = Some \<lparr>blip = Some (Some ''rId5''), docPr = None\<rparr>, anchor = None\<rparr>]\<rparr>)
   \<and> run_items [(''rId5'', ''./images/doc_image_1.png'')]
       \<lparr>run_text = ''caption'', rPr = None, font = Some (Font None),
        drawings = [\<lparr>inline = Some \<lparr>blip = Some (Some ''rId5''), docPr = None\<rparr>, anchor = None\<rparr>]\<rparr> \<noteq> []
   \<and> list_all is_image (run_items [(''rId5'', ''./images/doc_image_1.png'')]
       \<lparr>run_text = ''caption'', rPr = None, font = Some (Font None),
        drawings = [\<lparr>inline = Some \<lparr>blip = Some (Some ''rId5''), docPr = None\<rparr>, anchor = None\<rparr>]\<rparr>)
   \<and> length (run_items [(''rId5'', ''./images/doc_image_1.png'')]
       \<lparr>run_text = ''caption'', rPr = None, font = Some (Font None),
        drawings = [\<lparr>inline = Some \<lparr>blip = Some (Some ''rId5''), docPr = None\<rparr>, anchor = None\<rparr>]\<rparr>) = 1"
proof -
  let ?refs = "[(''rId5'', ''./images/doc_image_1.png'')]"
  let ?r = "\<lparr>run_text = ''caption'', rPr = None, font = Some (Font None),
        drawings = [\<lparr>inline = Some \<lparr>blip = Some (Some ''rId5''), docPr = None\<rparr>, anchor = None\<rparr>]\<rparr>"
  have h: "list_ex (resolves ?refs) (drawings ?r)" by code_simp
  have k: "length (filter (resolves ?refs) (drawings ?r)) = 1" by code_simp
  from run_linearization[where refs = ?refs and p = "\<lparr>style_name = None, runs = []\<rparr>" and rs = "[]" and r = ?r and rs' = "[]"]
  have "if list_ex (resolves ?refs) (drawings ?r)
       then run_items ?refs ?r \<noteq> [] \<and> list_all is_image (run_items ?refs ?r)
            \<and> length (run_items ?refs ?r) = length (filter (resolves ?refs) (drawings ?r))
       else if strip (run_text ?r) \<noteq> [] then run_items ?refs ?r = [Text (run_text ?r)]
       else run_items ?refs ?r = []" by (rule conjunct2)
  with h k show ?thesis by (simp only: if_True simp_thms)
qed



section \<open>The code test\<close>

lemma list_all_map_filter:
  "list_all P (List.map_filter f xs) = (\<forall>x\<in>set xs. \<forall>y. f x = Some y \<longrightarrow> P y)"
  by (induction xs) (auto split: option.splits)

lemma monospace_iff: "monospace f = (name f = Some ''Consolas'' \<or> name f = Some ''Courier New'')"
  by (auto simp: monospace_def split: option.splits)

lemma is_code_iff:
  assumes "style_name p = Some sn"
  shows "is_code p = Inr (startswith (lower sn) ''code''
           \<or> (\<forall>r\<in>set (runs p). \<forall>f. font r = Some f \<longrightarrow>
                 name f = Some ''Consolas'' \<or> name f = Some ''Courier New''))"
  using assms by (simp add: is_code_def list_all_map_filter monospace_iff)

lemma classify_Code_iff:
  "(classify refs p = Inr Code) =
     (paragraph_content refs p \<noteq> [] \<and> get_heading_level p \<le> 0 \<and> is_code p = Inr True)"
  by (auto simp: classify_def Let_def split: sum.splits)

lemma emit_code:
  assumes "classify refs p = Inr Code"
  shows "emit_paragraph refs p st =
           Inr (True, (if fst st then snd st else snd st @ ['''', fence])
              @ [replace (CHR 0x09) ''    '' (text_of (paragraph_content refs p))])"
  using assms by (auto simp: classify_Code_iff emit_paragraph_def Let_def)

text \<open>
  Claim C4, as the code has it. A paragraph with content, a named style and no heading
  level above 0 takes the code branch exactly when its style name in lower case starts
  with \<open>code\<close>, or every run with a font object has the font name \<open>Consolas\<close> or
  \<open>Courier New\<close>. A run whose font object has no name is not skipped: unless the style
  decides, it keeps the paragraph out of the code branch. In the code branch the
  paragraph is appended as one line, after a blank line and an opening fence when no code
  block is open.
\<close>

theorem code_classification:
  assumes "style_name p = Some sn" "paragraph_content refs p \<noteq> []" "get_heading_level p \<le> 0"
  shows "(classify refs p = Inr Code) =
           (startswith (lower sn) ''code''
            \<or> (\<forall>r\<in>set (runs p). \<forall>f. font r = Some f \<longrightarrow>
                  name f = Some ''Consolas'' \<or> name f = Some ''Courier New''))
         \<and> ((\<exists>r\<in>set (runs p). font r = Some (Font None)) \<and> \<not> startswith (lower sn) ''code''
              \<longrightarrow> classify refs p \<noteq> Inr Code)
         \<and> (classify refs p = Inr Code \<longrightarrow>
               (\<exists>line. emit_paragraph refs p st =
                  Inr (True, (if fst st then snd st else snd st @ ['''', fence]) @ [line])))"
proof -
  have iff: "(classify refs p = Inr Code) =
           (startswith (lower sn) ''code''
            \<or> (\<forall>r\<in>set (runs p). \<forall>f. font r = Some f \<longrightarrow>
                  name f = Some ''Consolas'' \<or> name f = Some ''Courier New''))"
    using assms by (simp add: classify_Code_iff is_code_iff[OF assms(1)])
  have unnamed: "(\<exists>r\<in>set (runs p). font r = Some (Font None)) \<and> \<not> startswith (lower sn) ''code''
              \<longrightarrow> classify refs p \<noteq> Inr Code"
  proof
    assume h: "(\<exists>r\<in>set (runs p). font r = Some (Font None)) \<and> \<not> startswith (lower sn) ''code''"
    then obtain r where r: "r \<in> set (runs p)" "font r = Some (Font None)" by blast
    have "name (Font None) \<noteq> Some ''Consolas'' \<and> name (Font None) \<noteq> Some ''Courier New''"
      by simp
    with r h show "classify refs p \<noteq> Inr Code" unfolding iff by blast
  qed
  have emit: "classify refs p = Inr Code \<longrightarrow>
               (\<exists>line. emit_paragraph refs p st =
                  Inr (True, (if fst st then snd st else snd st @ ['''', fence]) @ [line]))"
    using emit_code[of refs p st] by blast
  from iff unnamed emit show ?thesis by blast
qed

text \<open>The theorem at a paragraph of style \<open>Normal\<close> with one run in \<open>Courier New\<close>, outside a
  code block.\<close>

theorem code_classification_witness:
  "classify []
     \<lparr>style_name = Some ''Normal'',
      runs = [\<lparr>run_text = ''x = 1'', rPr = Some \<lparr>sz_elem = None, b_elem = False\<rparr>,
               font = Some (Font (Some ''Courier New'')), drawings = []\<rparr>]\<rparr> = Inr Code
   \<and> (\<exists>line. emit_paragraph []
     \<lparr>style_name = Some ''Normal'',
      runs = [\<lparr>run_text = ''x = 1'', rPr = Some \<lparr>sz_elem = None, b_elem = False\<rparr>,
               font = Some (Font (Some ''Courier New'')), drawings = []\<rparr>]\<rparr> (False, [''Text''])
        = Inr (True, [''Text'', '''', fence, line]))"
proof -
  let ?p = "\<lparr>style_name = Some ''Normal'',
      runs = [\<lparr>run_text = ''x = 1'', rPr = Some \<lparr>sz_elem = None, b_elem = False\<rparr>,
               font = Some (Font (Some ''Courier New'')), drawings = []\<rparr>]\<rparr>"
  have a: "style_name ?p = Some ''Normal''" by simp
  have b: "paragraph_content [] ?p \<noteq> []" by code_simp
  have c: "get_heading_level ?p \<le> 0" by code_simp
  have d: "\<not> startswith (lower ''Normal'') ''code''" by code_simp
  from code_classification[OF a b c, of "(False, [''Text''])"] d
  show ?thesis by simp
qed

text \<open>
  Claim C4 as it is worded fails at a paragraph of style \<open>Normal\<close> with a run in \<open>Consolas\<close>
  and a run that declares no font name: the only declared name is \<open>Consolas\<close>, so the
  test of the claim accepts the paragraph, and the code writes it as a normal line.
\<close>

theorem mixed_fonts_not_code:
  "get_heading_level
     \<lparr>style_name = Some ''Normal'',
      runs = [\<lparr>run_text = ''x = 1'', rPr = Some \<lparr>sz_elem = None, b_elem = False\<rparr>,
               font = Some (Font (Some ''Consolas'')), drawings = []\<rparr>,
              \<lparr>run_text = '' (example)'', rPr = None, font = Some (Font None), drawings = []\<rparr>]\<rparr> = 0
   \<and> code_as_specified
     \<lparr>style_name = Some ''Normal'',
      runs = [\<lparr>run_text = ''x = 1'', rPr = Some \<lparr>sz_elem = None, b_elem = False\<rparr>,
               font = Some (Font (Some ''Consolas'')), drawings = []\<rparr>,
              \<lparr>run_text = '' (example)'', rPr = None, font = Some (Font None), drawings = []\<rparr>]\<rparr>
   \<and> classify []
     \<lparr>style_name = Some ''Normal'',
      runs = [\<lparr>run_text = ''x = 1'', rPr = Some \<lparr>sz_elem = None, b_elem = False\<rparr>,
               font = Some (Font (Some ''Consolas'')), drawings = []\<rparr>,
              \<lparr>run_text = '' (example)'', rPr = None, font = Some (Font None), drawings = []\<rparr>]\<rparr>
       = Inr Normal
   \<and> markdown_lines []
     [\<lparr>style_name = Some ''Normal'',
      runs = [\<lparr>run_text = ''x = 1'', rPr = Some \<lparr>sz_elem = None, b_elem = False\<rparr>,
               font = Some (Font (Some ''Consolas'')), drawings = []\<rparr>,
              \<lparr>run_text = '' (example)'', rPr = None, font = Some (Font None), drawings = []\<rparr>]\<rparr>]
       = Inr [''x = 1 (example)'']"
  by code_simp

section \<open>Leaving a code block\<close>

lemma classify_Empty_iff: "(classify refs p = Inr Empty) = (paragraph_content refs p = [])"
  by (auto simp: classify_def Let_def split: sum.splits)

lemma emit_empty:
  assumes "classify refs p = Inr Empty"
  shows "emit_paragraph refs p st = Inr (fst st, if fst st then snd st else snd st @ [''''])"
  using assms by (simp add: classify_Empty_iff emit_paragraph_def Let_def)

lemma emit_leaves_code:
  assumes "classify refs p = Inr k" "k \<noteq> Code" "k \<noteq> Empty"
  shows "\<exists>rest. emit_paragraph refs p (True, md) = Inr (False, md @ [fence, ''''] @ rest)"
proof (cases "0 < get_heading_level p")
  case True
  from assms have "paragraph_content refs p \<noteq> []"
    by (auto simp: classify_def Let_def)
  from emit_heading[OF this True, of "(True, md)"] show ?thesis by simp
next
  case False
  with assms have c: "paragraph_content refs p \<noteq> []" and i: "is_code p = Inr False"
    by (auto simp: classify_def Let_def split: sum.splits if_splits)
  with False show ?thesis
    by (simp add: emit_paragraph_def Let_def)
qed

text \<open>
  Claim C3, as the code has it. Inside a code block, a paragraph that takes the heading,
  the image or the normal branch appends a closing fence and a blank line before anything
  else and leaves the block. A paragraph without content appends nothing and stays inside
  the block, and a code paragraph appends its line and stays inside. At the end of the
  document a block that is still open is closed by a fence and a blank line.
\<close>

theorem leaving_code_block:
  "(classify refs p = Inr k \<and> k \<noteq> Code \<and> k \<noteq> Empty \<longrightarrow>
      (\<exists>rest. emit_paragraph refs p (True, md) = Inr (False, md @ [fence, ''''] @ rest)))
   \<and> (classify refs p = Inr Empty \<longrightarrow> emit_paragraph refs p (True, md) = Inr (True, md))
   \<and> (classify refs p = Inr Code \<longrightarrow>
        (\<exists>line. emit_paragraph refs p (True, md) = Inr (True, md @ [line])))
   \<and> close_code_block (True, md) = md @ [fence, '''']"
proof (intro conjI impI)
  assume "classify refs p = Inr k \<and> k \<noteq> Code \<and> k \<noteq> Empty"
  then show "\<exists>rest. emit_paragraph refs p (True, md) = Inr (False, md @ [fence, ''''] @ rest)"
    using emit_leaves_code[of refs p k md] by blast
next
  assume "classify refs p = Inr Empty"
  from emit_empty[OF this, of "(True, md)"]
  show "emit_paragraph refs p (True, md) = Inr (True, md)" by simp
next
  assume "classify refs p = Inr Code"
  from emit_code[OF this, of "(True, md)"]
  show "\<exists>line. emit_paragraph refs p (True, md) = Inr (True, md @ [line])" by simp
next
  show "close_code_block (True, md) = md @ [fence, '''']"
    by (simp add: close_code_block_def)
qed

text \<open>The theorem at a normal paragraph, a paragraph without runs and a code paragraph,
  each met inside a code block.\<close>

theorem leaving_code_block_witness:
  "(\<exists>rest. emit_paragraph []
       \<lparr>style_name = Some ''Normal'',
        runs = [\<lparr>run_text = ''Done.'', rPr = None, font = Some (Font None), drawings = []\<rparr>]\<rparr>
       (True, ['''', fence, ''x = 1'']) = Inr (False, ['''', fence, ''x = 1''] @ [fence, ''''] @ rest))
   \<and> emit_paragraph [] \<lparr>style_name = Some ''Normal'', runs = []\<rparr> (True, ['''', fence, ''x = 1''])
       = Inr (True, ['''', fence, ''x = 1''])
   \<and> (\<exists>line. emit_paragraph []
       \<lparr>style_name = Some ''Code'',
        runs = [\<lparr>run_text = ''y = 2'', rPr = None, font = Some (Font None), drawings = []\<rparr>]\<rparr>
       (True, ['''', fence, ''x = 1'']) = Inr (True, ['''', fence, ''x = 1''] @ [line]))"
proof -
  let ?n = "\<lparr>style_name = Some ''Normal'',
        runs = [\<lparr>run_text = ''Done.'', rPr = None, font = Some (Font None), drawings = []\<rparr>]\<rparr>"
  let ?e = "\<lparr>style_name = Some ''Normal'', runs = []\<rparr>"
  let ?c = "\<lparr>style_name = Some ''Code'',
        runs = [\<lparr>run_text = ''y = 2'', rPr = None, font = Some (Font None), drawings = []\<rparr>]\<rparr>"
  let ?md = "['''', fence, ''x = 1'']"
  have n: "classify [] ?n = Inr Normal \<and> Normal \<noteq> Code \<and> Normal \<noteq> Empty" by code_simp
  have e: "classify [] ?e = Inr Empty" by code_simp
  have c: "classify [] ?c = Inr Code" by code_simp
  from leaving_code_block[of "[]" ?n Normal ?md] n
  have 1: "\<exists>rest. emit_paragraph [] ?n (True, ?md) = Inr (False, ?md @ [fence, ''''] @ rest)"
    by blast
  from leaving_code_block[of "[]" ?e Empty ?md] e
  have 2: "emit_paragraph [] ?e (True, ?md) = Inr (True, ?md)"
    by blast
  from leaving_code_block[of "[]" ?c Code ?md] c
  have 3: "\<exists>line. emit_paragraph [] ?c (True, ?md) = Inr (True, ?md @ [line])"
    by blast
  from 1 2 3 show ?thesis by blast
qed

text \<open>
  Claim C3 as it is worded fails at a paragraph without runs between two code paragraphs:
  it is classified Empty, appends nothing and leaves the code block open, so the document
  is written as one fenced block.
\<close>

theorem empty_paragraph_keeps_block_open:
  "classify [] \<lparr>style_name = Some ''Normal'', runs = []\<rparr> = Inr Empty
   \<and> emit_paragraph [] \<lparr>style_name = Some ''Normal'', runs = []\<rparr> (True, ['''', fence, ''x = 1''])
       = Inr (True, ['''', fence, ''x = 1''])
   \<and> markdown_lines []
       [\<lparr>style_name = Some ''Code'',
         runs = [\<lparr>run_text = ''x = 1'', rPr = None, font = Some (Font None), drawings = []\<rparr>]\<rparr>,
        \<lparr>style_name = Some ''Normal'', runs = []\<rparr>,
        \<lparr>style_name = Some ''Code'',
         runs = [\<lparr>run_text = ''y = 2'', rPr = None, font = Some (Font None), drawings = []\<rparr>]\<rparr>]
       = Inr ['''', fence, ''x = 1'', ''y = 2'', fence, '''']"
  by code_simp

section \<open>The post-pass\<close>

lemma clean_loop_acc:
  "fst (clean_loop xs (acc, b)) = acc @ fst (clean_loop xs ([], b))"
proof (induction xs arbitrary: acc b)
  case Nil
  then show ?case by simp
next
  case (Cons x xs)
  show ?case
    using Cons.IH[of "acc @ [x]" False] Cons.IH[of "[x]" False]
          Cons.IH[of "acc @ [x]" True] Cons.IH[of "[x]" True] Cons.IH[of acc True]
    by simp
qed

lemma clean_loop_collapse: "x # fst (clean_loop xs ([], blank x)) = collapse (x # xs)"
proof (induction xs arbitrary: x)
  case Nil
  then show ?case by simp
next
  case (Cons y ys)
  show ?case
  proof (cases "blank y")
    case False
    with Cons.IH[of y] clean_loop_acc[of ys "[y]" False] show ?thesis
      by (simp add: blank_def)
  next
    case True
    show ?thesis
    proof (cases "blank x")
      case False
      with True Cons.IH[of y] clean_loop_acc[of ys "[y]" True] show ?thesis
        by (simp add: blank_def)
    next
      case bx: True
      with True Cons.IH[of x] show ?thesis
        by (simp add: blank_def)
    qed
  qed
qed

lemma cleaned_content_collapse: "cleaned_content md = collapse md"
proof (cases md)
  case Nil
  then show ?thesis by (simp add: cleaned_content_def)
next
  case (Cons x xs)
  have "fst (clean_loop (x # xs) ([], False)) = x # fst (clean_loop xs ([], blank x))"
    using clean_loop_acc[of xs "[x]" False] clean_loop_acc[of xs "[x]" True]
    by (simp add: blank_def)
  with Cons show ?thesis by (simp add: cleaned_content_def clean_loop_collapse)
qed

lemma collapse_Cons: "\<exists>ys. collapse (x # xs) = x # ys"
  by (induction xs arbitrary: x) auto

lemma no_double_blank_collapse: "no_double_blank (collapse xs)"
proof (induction xs rule: collapse.induct)
  case (3 x y ls)
  obtain ys where ys: "collapse (y # ls) = y # ys" using collapse_Cons by blast
  with 3 show ?case by auto
qed simp_all

lemma filter_collapse: "filter (\<lambda>l. \<not> blank l) (collapse xs) = filter (\<lambda>l. \<not> blank l) xs"
  by (induction xs rule: collapse.induct) auto

lemma collapse_id: "no_double_blank xs \<Longrightarrow> collapse xs = xs"
  by (induction xs rule: collapse.induct) auto

lemma collapse_blank_run:
  "blank b \<Longrightarrow> list_all blank bs \<Longrightarrow> collapse (b # bs @ ys) = collapse (b # ys)"
  by (induction bs) auto

lemma collapse_blank_first:
  "blank b \<Longrightarrow> ys = [] \<or> \<not> blank (hd ys) \<Longrightarrow> collapse (b # ys) = b # collapse ys"
  by (cases ys) auto

lemma collapse_append:
  "xs = [] \<or> \<not> blank (last xs) \<Longrightarrow> collapse (xs @ zs) = collapse xs @ collapse zs"
proof (induction xs rule: collapse.induct)
  case 1
  then show ?case by simp
next
  case (2 x)
  then show ?case by (cases zs) auto
next
  case (3 x y ls)
  then show ?case by (cases ls) (auto split: if_splits)
qed

lemma collapse_run:
  assumes "blank b" "list_all blank bs" "xs = [] \<or> \<not> blank (last xs)" "ys = [] \<or> \<not> blank (hd ys)"
  shows "collapse (xs @ b # bs @ ys) = collapse xs @ b # collapse ys"
  using assms
  by (simp add: collapse_append collapse_blank_run collapse_blank_first)

lemma split_on_no_sep: "sep \<notin> set x \<Longrightarrow> split_on sep x = [x]"
  by (induction x) auto

lemma split_on_append:
  "sep \<notin> set x \<Longrightarrow> split_on sep (x @ sep # s) = x # split_on sep s"
  by (induction x) auto

lemma split_on_join:
  "ls \<noteq> [] \<Longrightarrow> \<forall>l\<in>set ls. sep \<notin> set l \<Longrightarrow> split_on sep (join [sep] ls) = ls"
proof (induction "[sep]" ls rule: join.induct)
  case 1
  then show ?case by simp
next
  case (2 x)
  then show ?case by (simp add: split_on_no_sep)
next
  case (3 x y xs)
  then show ?case by (simp add: split_on_append)
qed

lemma lines_of_join:
  assumes "\<forall>l\<in>set ls. newline \<notin> set l"
  shows "no_double_blank (lines_of (join [newline] ls)) = no_double_blank ls"
proof (cases "ls = []")
  case True
  then show ?thesis by (simp add: lines_of_def)
next
  case False
  with assms show ?thesis by (simp add: lines_of_def split_on_join)
qed

text \<open>
  Claim C7. The post-pass keeps of every run of blank entries of the list of lines its
  first entry only: its result has no two blank neighbours, the entries that are not blank
  are the same, in the same order and with the same content, and a list without blank
  neighbours is returned as it is. A run of one or more blank entries between entries that
  are not blank (or an end of the list) leaves exactly one entry, its first. An entry is
  blank when stripping leaves nothing of it. The text written joins the entries with line
  feeds. When no entry holds a line feed, the lines of the text written are the entries,
  so no two consecutive lines of it are blank. An entry that holds line feeds, as the text
  of a run with line breaks does, is tested as a whole and written as several lines.
\<close>

theorem post_pass:
  "cleaned_content md = collapse md
   \<and> no_double_blank (cleaned_content md)
   \<and> filter (\<lambda>l. \<not> blank l) (cleaned_content md) = filter (\<lambda>l. \<not> blank l) md
   \<and> (no_double_blank md \<longrightarrow> cleaned_content md = md)
   \<and> (blank b \<and> list_all blank bs \<and> (xs = [] \<or> \<not> blank (last xs))
        \<and> (ys = [] \<or> \<not> blank (hd ys)) \<longrightarrow>
        cleaned_content (xs @ b # bs @ ys) = cleaned_content xs @ b # cleaned_content ys)
   \<and> (markdown_lines refs ps = Inr out \<longrightarrow>
        no_double_blank out \<and> written_text refs ps = Inr (join [newline] out))
   \<and> (markdown_lines refs ps = Inr out \<and> (\<forall>l\<in>set out. newline \<notin> set l) \<longrightarrow>
        no_double_blank (lines_of (join [newline] out))
        \<and> (out \<noteq> [] \<longrightarrow> lines_of (join [newline] out) = out))"
proof (intro conjI impI)
  show "cleaned_content md = collapse md" by (rule cleaned_content_collapse)
next
  show "no_double_blank (cleaned_content md)"
    by (simp add: cleaned_content_collapse no_double_blank_collapse)
next
  show "filter (\<lambda>l. \<not> blank l) (cleaned_content md) = filter (\<lambda>l. \<not> blank l) md"
    by (simp add: cleaned_content_collapse filter_collapse)
next
  assume "no_double_blank md"
  then show "cleaned_content md = md" by (simp add: cleaned_content_collapse collapse_id)
next
  assume "blank b \<and> list_all blank bs \<and> (xs = [] \<or> \<not> blank (last xs))
        \<and> (ys = [] \<or> \<not> blank (hd ys))"
  then show "cleaned_content (xs @ b # bs @ ys) = cleaned_content xs @ b # cleaned_content ys"
    using collapse_run[of b bs xs ys] by (simp add: cleaned_content_collapse)
next
  assume "markdown_lines refs ps = Inr out"
  then obtain st where "out = cleaned_content (close_code_block st)"
    by (auto simp: markdown_lines_def split: sum.splits)
  then show "no_double_blank out"
    by (simp add: cleaned_content_collapse no_double_blank_collapse)
next
  assume "markdown_lines refs ps = Inr out"
  then show "written_text refs ps = Inr (join [newline] out)"
    by (simp add: written_text_def)
next
  assume a: "markdown_lines refs ps = Inr out \<and> (\<forall>l\<in>set out. newline \<notin> set l)"
  then obtain st where "out = cleaned_content (close_code_block st)"
    by (auto simp: markdown_lines_def split: sum.splits)
  then have "no_double_blank out"
    by (simp add: cleaned_content_collapse no_double_blank_collapse)
  with a show "no_double_blank (lines_of (join [newline] out))"
    by (simp add: lines_of_join)
next
  assume "markdown_lines refs ps = Inr out \<and> (\<forall>l\<in>set out. newline \<notin> set l)"
     and "out \<noteq> []"
  then show "lines_of (join [newline] out) = out"
    by (simp add: lines_of_def split_on_join)
qed

text \<open>The theorem at a list with a run of three blank entries, one of them of two spaces,
  and at a document of two image paragraphs, none of whose lines holds a line feed.\<close>

theorem post_pass_witness:
  "cleaned_content [''a'', [], ''  '', [], ''b'', []] = [''a'', [], ''b'', []]
   \<and> no_double_blank [''a'', [], ''b'', []]
   \<and> markdown_lines [(''rId1'', ''./images/d_image_1.png'')]
       [\<lparr>style_name = Some ''Normal'',
         runs = [\<lparr>run_text = [], rPr = None, font = Some (Font None),
                  drawings = [\<lparr>inline = Some \<lparr>blip = Some (Some ''rId1''), docPr = None\<rparr>,
                               anchor = None\<rparr>]\<rparr>]\<rparr>,
        \<lparr>style_name = Some ''Normal'',
         runs = [\<lparr>run_text = [], rPr = None, font = Some (Font None),
                  drawings = [\<lparr>inline = Some \<lparr>blip = Some (Some ''rId1''), docPr = None\<rparr>,
                               anchor = None\<rparr>]\<rparr>]\<rparr>]
       = Inr [[], ''![Image](./images/d_image_1.png)'', [],
              ''![Image](./images/d_image_1.png)'', []]
   \<and> no_double_blank [[], ''![Image](./images/d_image_1.png)'', [],
              ''![Image](./images/d_image_1.png)'', []]
   \<and> lines_of (join [newline] [[], ''![Image](./images/d_image_1.png)'', [],
              ''![Image](./images/d_image_1.png)'', []])
       = [[], ''![Image](./images/d_image_1.png)'', [],
              ''![Image](./images/d_image_1.png)'', []]"
proof -
  let ?refs = "[(''rId1'', ''./images/d_image_1.png'')]"
  let ?p = "\<lparr>style_name = Some ''Normal'',
         runs = [\<lparr>run_text = [], rPr = None, font = Some (Font None),
                  drawings = [\<lparr>inline = Some \<lparr>blip = Some (Some ''rId1''), docPr = None\<rparr>,
                               anchor = None\<rparr>]\<rparr>]\<rparr>"
  let ?out = "[[], ''![Image](./images/d_image_1.png)'', [],
              ''![Image](./images/d_image_1.png)'', []]"
  let ?md = "[''a'', [], ''  '', [], ''b'', []]"
  have h: "blank [] \<and> list_all blank [''  '', []] \<and> ([''a''] = [] \<or> \<not> blank (last [''a'']))
        \<and> ([''b'', []] = [] \<or> \<not> blank (hd [''b'', []]))" by code_simp
  have a: "cleaned_content [''a''] = [''a'']" by code_simp
  have b: "cleaned_content [''b'', []] = [''b'', []]" by code_simp
  have m: "markdown_lines ?refs [?p, ?p] = Inr ?out" by code_simp
  have n: "\<forall>l\<in>set ?out. newline \<notin> set l" by code_simp
  have ne: "?out \<noteq> []" by simp
  note t = post_pass[where md = ?md and b = "[]" and bs = "[''  '', []]" and xs = "[''a'']"
      and ys = "[''b'', []]" and refs = ?refs and ps = "[?p, ?p]" and out = ?out]
  from t h a b have 1: "cleaned_content ?md = [''a'', [], ''b'', []]"
    by simp
  from t have "no_double_blank (cleaned_content ?md)" by blast
  with 1 have 2: "no_double_blank [''a'', [], ''b'', []]" by simp
  from t m have 3: "no_double_blank ?out" by blast
  from t m n ne have 4: "lines_of (join [newline] ?out) = ?out" by blast
  from 1 2 m 3 4 show ?thesis by blast
qed

text \<open>
  A paragraph whose one run holds three line breaks between \<open>a\<close> and \<open>b\<close>. Its text is one
  entry of the list, which is not blank, so the post-pass keeps it; the text written has
  two consecutive blank lines.
\<close>

theorem written_text_double_blank:
  "markdown_lines []
     [\<lparr>style_name = Some ''Normal'',
       runs = [\<lparr>run_text = ''a'' @ [newline, newline, newline] @ ''b'', rPr = None,
                font = Some (Font None), drawings = []\<rparr>]\<rparr>]
     = Inr [''a'' @ [newline, newline, newline] @ ''b'']
   \<and> written_text []
     [\<lparr>style_name = Some ''Normal'',
       runs = [\<lparr>run_text = ''a'' @ [newline, newline, newline] @ ''b'', rPr = None,
                font = Some (Font None), drawings = []\<rparr>]\<rparr>]
     = Inr (''a'' @ [newline, newline, newline] @ ''b'')
   \<and> lines_of (''a'' @ [newline, newline, newline] @ ''b'') = [''a'', [], [], ''b'']
   \<and> \<not> no_double_blank [''a'', [], [], ''b'']"
  by code_simp

section \<open>Balanced fences\<close>

lemma emit_paragraph_erase:
  "emit_paragraph refs p (b, map snd t) =
     map_sum id (map_prod id (map snd)) (emit_paragraph_tr refs p (b, t))"
  by (simp add: emit_paragraph_def emit_paragraph_tr_def Let_def split: sum.splits)

lemma emit_paragraphs_erase:
  "emit_paragraphs refs ps (b, map snd t) =
     map_sum id (map_prod id (map snd)) (emit_paragraphs_tr refs ps (b, t))"
proof (induction ps arbitrary: b t)
  case Nil
  then show ?case by simp
next
  case (Cons p ps)
  show ?case
  proof (cases "emit_paragraph_tr refs p (b, t)")
    case (Inl e)
    then show ?thesis using emit_paragraph_erase[of refs p b t] by simp
  next
    case (Inr st)
    obtain b' t' where st: "st = (b', t')" by (cases st)
    with Inr show ?thesis
      using emit_paragraph_erase[of refs p b t] Cons.IH[of b' t'] by simp
  qed
qed

lemma close_code_block_erase:
  "close_code_block (b, map snd t) = map snd (close_code_block_tr (b, t))"
  by (simp add: close_code_block_def close_code_block_tr_def)

lemma clean_loop_erase:
  "clean_loop (map snd xs) (map snd acc, b) = map_prod (map snd) id (clean_loop_tr xs (acc, b))"
proof (induction xs arbitrary: acc b)
  case Nil
  then show ?case by simp
next
  case (Cons x xs)
  show ?case
    using Cons.IH[of "acc @ [x]" False] Cons.IH[of "acc @ [x]" True] Cons.IH[of acc True]
    by simp
qed

lemma cleaned_content_erase: "cleaned_content (map snd t) = map snd (cleaned_content_tr t)"
  using clean_loop_erase[of t "[]" False]
  by (simp add: cleaned_content_def cleaned_content_tr_def)

lemma markdown_lines_erase:
  "markdown_lines refs ps = map_sum id (map snd) (markdown_trace refs ps)"
proof (cases "emit_paragraphs_tr refs ps (False, [])")
  case (Inl e)
  then show ?thesis
    using emit_paragraphs_erase[of refs ps False "[]"]
    by (simp add: markdown_lines_def markdown_trace_def)
next
  case (Inr st)
  obtain b t where st: "st = (b, t)" by (cases st)
  with Inr show ?thesis
    using emit_paragraphs_erase[of refs ps False "[]"]
    by (simp add: markdown_lines_def markdown_trace_def close_code_block_erase
                  cleaned_content_erase)
qed


lemma fence_state_append:
  "fence_state b (xs @ ys) =
     (case fence_state b xs of None \<Rightarrow> None | Some b' \<Rightarrow> fence_state b' ys)"
  by (induction b xs rule: fence_state.induct) auto

lemma fence_state_filter:
  "fence_state b (filter (\<lambda>x. x \<noteq> Body) xs) = fence_state b xs"
  by (induction b xs rule: fence_state.induct) auto

lemma fence_state_counts:
  "fence_state b xs = Some b' \<Longrightarrow>
     length (filter (\<lambda>x. x = Opening) xs) + (if b then 1 else 0)
       = length (filter (\<lambda>x. x = Closing) xs) + (if b' then 1 else 0)"
  by (induction b xs rule: fence_state.induct) (auto split: if_splits)

lemma emit_paragraph_tr_state:
  assumes "fence_state False (map fst t) = Some b"
      and "emit_paragraph_tr refs p (b, t) = Inr (b', t')"
  shows "fence_state False (map fst t') = Some b'"
  using assms
  by (auto simp: emit_paragraph_tr_def Let_def fence_state_append
           split: if_splits sum.splits)

lemma emit_paragraph_tr_fences:
  assumes "\<forall>l\<in>set t. fst l \<noteq> Body \<longrightarrow> snd l = fence"
      and "emit_paragraph_tr refs p (b, t) = Inr (b', t')"
  shows "\<forall>l\<in>set t'. fst l \<noteq> Body \<longrightarrow> snd l = fence"
  using assms
  by (auto simp: emit_paragraph_tr_def Let_def split: if_splits sum.splits)

lemma emit_paragraphs_tr_inv:
  assumes "fence_state False (map fst t) = Some b"
      and "\<forall>l\<in>set t. fst l \<noteq> Body \<longrightarrow> snd l = fence"
      and "emit_paragraphs_tr refs ps (b, t) = Inr (b', t')"
  shows "fence_state False (map fst t') = Some b'
         \<and> (\<forall>l\<in>set t'. fst l \<noteq> Body \<longrightarrow> snd l = fence)"
  using assms
proof (induction ps arbitrary: b t)
  case Nil
  then show ?case by simp
next
  case (Cons p ps)
  from Cons.prems(3) obtain b1 t1 where
    step: "emit_paragraph_tr refs p (b, t) = Inr (b1, t1)"
    and rest: "emit_paragraphs_tr refs ps (b1, t1) = Inr (b', t')"
    by (auto split: sum.splits)
  from emit_paragraph_tr_state[OF Cons.prems(1) step]
       emit_paragraph_tr_fences[OF Cons.prems(2) step]
  show ?case using Cons.IH[OF _ _ rest] by blast
qed

lemma close_code_block_tr_inv:
  assumes "fence_state False (map fst t) = Some b"
      and "\<forall>l\<in>set t. fst l \<noteq> Body \<longrightarrow> snd l = fence"
  shows "fence_state False (map fst (close_code_block_tr (b, t))) = Some False
         \<and> (\<forall>l\<in>set (close_code_block_tr (b, t)). fst l \<noteq> Body \<longrightarrow> snd l = fence)"
  using assms by (auto simp: close_code_block_tr_def fence_state_append)

lemma strip_fence: "strip fence \<noteq> []"
  by (simp add: fence_def strip_def lstrip_def rstrip_def isspace_def)

lemma clean_loop_tr_acc:
  "fst (clean_loop_tr xs (acc, b)) = acc @ fst (clean_loop_tr xs ([], b))"
proof (induction xs arbitrary: acc b)
  case Nil
  then show ?case by simp
next
  case (Cons x xs)
  show ?case
    using Cons.IH[of "acc @ [x]" False] Cons.IH[of "[x]" False]
          Cons.IH[of "acc @ [x]" True] Cons.IH[of "[x]" True] Cons.IH[of acc True]
    by simp
qed

lemma clean_loop_tr_fences:
  assumes "\<forall>l\<in>set xs. fst l \<noteq> Body \<longrightarrow> snd l = fence"
  shows "filter (\<lambda>l. fst l \<noteq> Body) (fst (clean_loop_tr xs ([], b)))
           = filter (\<lambda>l. fst l \<noteq> Body) xs"
  using assms
proof (induction xs arbitrary: b)
  case Nil
  then show ?case by simp
next
  case (Cons x xs)
  have IH: "\<And>b. filter (\<lambda>l. fst l \<noteq> Body) (fst (clean_loop_tr xs ([], b)))
           = filter (\<lambda>l. fst l \<noteq> Body) xs"
    using Cons by simp
  have x: "fst x \<noteq> Body \<Longrightarrow> strip (snd x) \<noteq> []"
    using Cons.prems strip_fence by simp
  show ?case
    using IH[of False] IH[of True] x
          clean_loop_tr_acc[of xs "[x]" False] clean_loop_tr_acc[of xs "[x]" True]
    by auto
qed

lemma cleaned_content_tr_fences:
  assumes "\<forall>l\<in>set t. fst l \<noteq> Body \<longrightarrow> snd l = fence"
  shows "filter (\<lambda>x. x \<noteq> Body) (map fst (cleaned_content_tr t))
           = filter (\<lambda>x. x \<noteq> Body) (map fst t)"
proof -
  have "map fst (filter (\<lambda>l. fst l \<noteq> Body) (cleaned_content_tr t))
          = map fst (filter (\<lambda>l. fst l \<noteq> Body) t)"
    using clean_loop_tr_fences[OF assms, of False] by (simp add: cleaned_content_tr_def)
  then show ?thesis by (simp add: filter_map comp_def)
qed

lemma clean_loop_tr_subset: "set (fst (clean_loop_tr xs (acc, b))) \<subseteq> set acc \<union> set xs"
proof (induction xs arbitrary: acc b)
  case Nil
  then show ?case by simp
next
  case (Cons x xs)
  show ?case
    using Cons.IH[of "acc @ [x]" False] Cons.IH[of "acc @ [x]" True] Cons.IH[of acc True]
    by auto
qed

lemma markdown_trace_balanced:
  assumes "markdown_trace refs ps = Inr t"
  shows "balanced (map fst t)"
    and "\<forall>l\<in>set t. fst l \<noteq> Body \<longrightarrow> snd l = fence"
proof -
  from assms obtain b t0 where
    loop: "emit_paragraphs_tr refs ps (False, []) = Inr (b, t0)"
    and t: "t = cleaned_content_tr (close_code_block_tr (b, t0))"
    by (auto simp: markdown_trace_def split: sum.splits)
  have inv0: "fence_state False (map fst t0) = Some b
         \<and> (\<forall>l\<in>set t0. fst l \<noteq> Body \<longrightarrow> snd l = fence)"
    using emit_paragraphs_tr_inv[OF _ _ loop] by simp
  let ?c = "close_code_block_tr (b, t0)"
  have inv1: "fence_state False (map fst ?c) = Some False
         \<and> (\<forall>l\<in>set ?c. fst l \<noteq> Body \<longrightarrow> snd l = fence)"
    using close_code_block_tr_inv inv0 by blast
  have "fence_state False (map fst t) = fence_state False (filter (\<lambda>x. x \<noteq> Body) (map fst t))"
    by (simp add: fence_state_filter)
  also have "\<dots> = fence_state False (filter (\<lambda>x. x \<noteq> Body) (map fst ?c))"
    using cleaned_content_tr_fences inv1 t by simp
  also have "\<dots> = Some False" using inv1 by (simp add: fence_state_filter)
  finally show "balanced (map fst t)" by (simp add: balanced_def)
  have "set t \<subseteq> set ?c"
    using clean_loop_tr_subset[of ?c "[]" False] t by (simp add: cleaned_content_tr_def)
  with inv1 show "\<forall>l\<in>set t. fst l \<noteq> Body \<longrightarrow> snd l = fence" by blast
qed

lemma balanced_counts:
  assumes "balanced (map fst t)"
  shows "count_origin Opening t = count_origin Closing t"
proof -
  from assms have "fence_state False (map fst t) = Some False" by (simp add: balanced_def)
  from fence_state_counts[OF this]
  have "length (filter (\<lambda>x. x = Opening) (map fst t))
          = length (filter (\<lambda>x. x = Closing) (map fst t))" by simp
  then show ?thesis by (simp add: count_origin_def filter_map comp_def)
qed

lemma markdown_lines_total:
  assumes "\<forall>p\<in>set ps. style_name p \<noteq> None"
  shows "\<exists>out. markdown_lines refs ps = Inr out"
proof -
  have step: "\<And>p st. style_name p \<noteq> None \<Longrightarrow> \<exists>st'. emit_paragraph refs p st = Inr st'"
    by (auto simp: emit_paragraph_def is_code_def Let_def)
  have "\<And>st. \<exists>st'. emit_paragraphs refs ps st = Inr st'"
    using assms
  proof (induction ps)
    case Nil
    then show ?case by simp
  next
    case (Cons p ps)
    from Cons.prems obtain st1 where "emit_paragraph refs p st = Inr st1"
      using step[of p st] by auto
    with Cons show ?case by auto
  qed
  then obtain st' where "emit_paragraphs refs ps (False, []) = Inr st'" by blast
  then show ?thesis by (simp add: markdown_lines_def)
qed

text \<open>
  Claim C1. Whenever the conversion of the paragraphs returns its lines, these are the
  lines of the trace, in which the opening and closing fences alternate, starting with an
  opening one and ending with a closing one: no fence is opened inside a code block, none
  is closed outside one, and every opened block is closed, also when the document ends
  inside it. So the emitter appends as many opening as closing fences, and each of them
  is the line of three backquotes. The conversion returns its lines for every document
  whose paragraph styles have names.
\<close>

theorem fences_balanced:
  "(markdown_lines refs ps = Inr out \<longrightarrow>
      (\<exists>t. markdown_trace refs ps = Inr t \<and> map snd t = out \<and> balanced (map fst t)
           \<and> count_origin Opening t = count_origin Closing t
           \<and> (\<forall>l\<in>set t. fst l \<noteq> Body \<longrightarrow> snd l = fence)))
   \<and> (markdown_lines refs ps = Inr out \<longrightarrow>
        (\<forall>md. emit_paragraphs refs ps (False, []) = Inr (True, md) \<longrightarrow>
           out = cleaned_content (md @ [fence, []])))
   \<and> ((\<forall>p\<in>set ps. style_name p \<noteq> None) \<longrightarrow> (\<exists>ls. markdown_lines refs ps = Inr ls))"
proof (intro conjI impI allI)
  assume m: "markdown_lines refs ps = Inr out"
  then obtain t where t: "markdown_trace refs ps = Inr t" and o: "map snd t = out"
    using markdown_lines_erase[of refs ps] by (cases "markdown_trace refs ps") auto
  from markdown_trace_balanced[OF t] balanced_counts[of t] t o
  show "\<exists>t. markdown_trace refs ps = Inr t \<and> map snd t = out \<and> balanced (map fst t)
           \<and> count_origin Opening t = count_origin Closing t
           \<and> (\<forall>l\<in>set t. fst l \<noteq> Body \<longrightarrow> snd l = fence)"
    by blast
next
  fix md
  assume "markdown_lines refs ps = Inr out"
     and "emit_paragraphs refs ps (False, []) = Inr (True, md)"
  then show "out = cleaned_content (md @ [fence, []])"
    by (simp add: markdown_lines_def close_code_block_def)
next
  assume "\<forall>p\<in>set ps. style_name p \<noteq> None"
  then show "\<exists>ls. markdown_lines refs ps = Inr ls" by (rule markdown_lines_total)
qed

text \<open>
  The theorem at a document that ends inside a code block: a code paragraph, a normal
  paragraph whose text is three backquotes, and a code paragraph.
\<close>

theorem fences_balanced_witness:
  "markdown_lines []
     [\<lparr>style_name = Some ''Code'',
       runs = [\<lparr>run_text = ''x = 1'', rPr = None, font = Some (Font None), drawings = []\<rparr>]\<rparr>,
      \<lparr>style_name = Some ''Normal'',
       runs = [\<lparr>run_text = fence, rPr = None, font = Some (Font None), drawings = []\<rparr>]\<rparr>,
      \<lparr>style_name = Some ''Code'',
       runs = [\<lparr>run_text = ''y = 2'', rPr = None, font = Some (Font None), drawings = []\<rparr>]\<rparr>]
     = Inr [[], fence, ''x = 1'', fence, [], fence, [], fence, ''y = 2'', fence, []]
   \<and> (\<exists>t. map snd t = [[], fence, ''x = 1'', fence, [], fence, [], fence, ''y = 2'', fence, []]
          \<and> balanced (map fst t) \<and> count_origin Opening t = count_origin Closing t
          \<and> count_origin Opening t = 2)"
proof -
  let ?d = "[\<lparr>style_name = Some ''Code'',
       runs = [\<lparr>run_text = ''x = 1'', rPr = None, font = Some (Font None), drawings = []\<rparr>]\<rparr>,
      \<lparr>style_name = Some ''Normal'',
       runs = [\<lparr>run_text = fence, rPr = None, font = Some (Font None), drawings = []\<rparr>]\<rparr>,
      \<lparr>style_name = Some ''Code'',
       runs = [\<lparr>run_text = ''y = 2'', rPr = None, font = Some (Font None), drawings = []\<rparr>]\<rparr>]"
  let ?out = "[[], fence, ''x = 1'', fence, [], fence, [], fence, ''y = 2'', fence, []]"
  let ?t = "[(Body, []), (Opening, fence), (Body, ''x = 1''), (Closing, fence), (Body, []),
             (Body, fence), (Body, []), (Opening, fence), (Body, ''y = 2''), (Closing, fence),
             (Body, [])]"
  have m: "markdown_lines [] ?d = Inr ?out" by code_simp
  have tr: "markdown_trace [] ?d = Inr ?t" by code_simp
  have c: "count_origin Opening ?t = 2" by code_simp
  have "markdown_lines [] ?d = Inr ?out \<longrightarrow>
      (\<exists>t. markdown_trace [] ?d = Inr t \<and> map snd t = ?out \<and> balanced (map fst t)
           \<and> count_origin Opening t = count_origin Closing t
           \<and> (\<forall>l\<in>set t. fst l \<noteq> Body \<longrightarrow> snd l = fence))"
    using fences_balanced[of "[]" ?d ?out] by (rule conjunct1)
  from this m have "\<exists>t. markdown_trace [] ?d = Inr t \<and> map snd t = ?out \<and> balanced (map fst t)
           \<and> count_origin Opening t = count_origin Closing t
           \<and> (\<forall>l\<in>set t. fst l \<noteq> Body \<longrightarrow> snd l = fence)"
    by (rule mp)
  then obtain t where t: "markdown_trace [] ?d = Inr t" "map snd t = ?out" "balanced (map fst t)"
      "count_origin Opening t = count_origin Closing t"
    by (elim exE conjE)
  from t(1) tr have "t = ?t" by simp
  with c have c2: "count_origin Opening t = 2" by simp
  have "\<exists>t. map snd t = ?out \<and> balanced (map fst t)
          \<and> count_origin Opening t = count_origin Closing t \<and> count_origin Opening t = 2"
    using t(2) t(3) t(4) c2 by (intro exI[of _ t] conjI)
  with m show ?thesis by (rule conjI)
qed

section \<open>The extraction loop\<close>

lemma extract_rel_abort:
  "image_data_of r = Inl e \<Longrightarrow> extract_rel wr image_dir doc_name r st = Inl e"
  by (simp add: extract_rel_def)

lemma extract_rel_skip:
  "\<not> isl (image_data_of r) \<Longrightarrow> \<not> attempted r \<Longrightarrow> extract_rel wr image_dir doc_name r st = Inr st"
  by (auto simp: extract_rel_def attempted_def split: sum.splits option.splits)

lemma extract_rel_ok:
  assumes "attempted r" "outcome wr image_dir doc_name (file_image_count st + 1) r = None"
  shows "extract_rel wr image_dir doc_name r st =
           Inr (st\<lparr>file_image_count := file_image_count st + 1,
              image_refs := AList.update (rId r)
                 (''./images/'' @ image_filename_of doc_name (file_image_count st + 1) (image_ext_of r))
                 (image_refs st),
              files := files st @
                 [(path_join image_dir
                     (image_filename_of doc_name (file_image_count st + 1) (image_ext_of r)),
                   payload r)]\<rparr>)"
  using assms
  by (auto simp: extract_rel_def attempted_def outcome_def payload_def Let_def
           split: sum.splits option.splits)

lemma extract_rel_failed:
  assumes "attempted r" "outcome wr image_dir doc_name (file_image_count st + 1) r = Some e"
  shows "extract_rel wr image_dir doc_name r st =
           Inr (st\<lparr>file_image_count := file_image_count st + 1,
              stats := (stats st)\<lparr>failed_images := failed_images (stats st)
                 @ [(doc_name, failure_message (file_image_count st + 1) doc_name e)]\<rparr>\<rparr>)"
  using assms
  by (auto simp: extract_rel_def attempted_def outcome_def payload_def Let_def
           split: sum.splits option.splits)

lemma extract_rel_cases:
  obtains (abort) e where "image_data_of r = Inl e"
  | (skip) "\<not> isl (image_data_of r)" "\<not> attempted r"
  | (ok) "\<not> isl (image_data_of r)" "attempted r"
      "outcome wr image_dir doc_name (file_image_count st + 1) r = None"
  | (failed) e where "\<not> isl (image_data_of r)" "attempted r"
      "outcome wr image_dir doc_name (file_image_count st + 1) r = Some e"
proof (cases "image_data_of r")
  case (Inl e)
  then show ?thesis by (rule abort)
next
  case (Inr d)
  then have n: "\<not> isl (image_data_of r)" by simp
  show ?thesis
  proof (cases "attempted r")
    case False
    with n show ?thesis by (rule skip)
  next
    case True
    show ?thesis
    proof (cases "outcome wr image_dir doc_name (file_image_count st + 1) r")
      case None
      with n True show ?thesis by (rule ok)
    next
      case (Some e)
      with n True show ?thesis by (rule failed)
    qed
  qed
qed

lemma loop_abort: "snd (extract_loop wr image_dir doc_name rels st) = abort_of rels"
proof (induction rels arbitrary: st)
  case Nil
  then show ?case by simp
next
  case (Cons r rs)
  show ?case
  proof (cases rule: extract_rel_cases[where r = r and wr = wr and image_dir = image_dir and doc_name = doc_name and st = st])
    case (abort e)
    then show ?thesis by (simp add: extract_rel_abort)
  next
    case skip
    then show ?thesis
      using Cons.IH[of st] by (cases "image_data_of r") (simp_all add: extract_rel_skip)
  next
    case ok
    then show ?thesis
      using Cons.IH by (cases "image_data_of r") (simp_all add: extract_rel_ok)
  next
    case (failed e)
    then show ?thesis
      using Cons.IH by (cases "image_data_of r") (simp_all add: extract_rel_failed)
  qed
qed

lemma loop_count:
  "file_image_count (fst (extract_loop wr image_dir doc_name rels st))
     = file_image_count st + length (filter attempted (reached rels))"
proof (induction rels arbitrary: st)
  case Nil
  then show ?case by simp
next
  case (Cons r rs)
  show ?case
  proof (cases rule: extract_rel_cases[where r = r and wr = wr and image_dir = image_dir and doc_name = doc_name and st = st])
    case (abort e)
    then show ?thesis by (simp add: extract_rel_abort)
  next
    case skip
    then show ?thesis using Cons.IH[of st] by (simp add: extract_rel_skip)
  next
    case ok
    then show ?thesis using Cons.IH by (simp add: extract_rel_ok)
  next
    case (failed e)
    then show ?thesis using Cons.IH by (simp add: extract_rel_failed)
  qed
qed

lemma attempts_numbers:
  "map fst (attempts n rels) = [n + 1..<n + 1 + length (filter attempted rels)]"
proof (induction rels arbitrary: n)
  case Nil
  then show ?case by simp
next
  case (Cons r rs)
  show ?case
  proof (cases "attempted r")
    case True
    have "[n + 1..<n + 1 + Suc (length (filter attempted rs))]
            = (n + 1) # [Suc (n + 1)..<n + 1 + Suc (length (filter attempted rs))]"
      by (rule upt_conv_Cons) simp
    with True Cons.IH[of "n + 1"] show ?thesis by simp
  next
    case False
    with Cons.IH[of n] show ?thesis by simp
  qed
qed

lemma attempts_rels: "map snd (attempts n rels) = filter attempted rels"
  by (induction rels arbitrary: n) auto

lemma reached_all: "abort_of rels = None \<Longrightarrow> reached rels = rels"
  by (induction rels) (auto split: sum.splits)

lemma reached_no_abort: "\<forall>r\<in>set (reached rels). \<not> isl (image_data_of r)"
  by (induction rels) auto

lemma reached_stops:
  "abort_of rels = Some e \<Longrightarrow>
     \<exists>r rest. rels = reached rels @ r # rest \<and> image_data_of r = Inl e"
proof (induction rels)
  case Nil
  then show ?case by simp
next
  case (Cons r rs)
  show ?case
  proof (cases "image_data_of r")
    case (Inl x)
    with Cons.prems have "x = e" by simp
    with Inl show ?thesis by auto
  next
    case (Inr d)
    with Cons.prems have "abort_of rs = Some e" by simp
    from Cons.IH[OF this] obtain q rest where "rs = reached rs @ q # rest" "image_data_of q = Inl e"
      by blast
    with Inr show ?thesis by (intro exI[of _ q] exI[of _ rest]) simp
  qed
qed

lemma succeeded_pair [simp]:
  "succeeded wr image_dir doc_name (n, r) = (outcome wr image_dir doc_name n r = None)"
  by (simp add: succeeded_def)

lemma ref_entry_pair:
  "ref_entry doc_name (n, r) =
     (rId r, ''./images/'' @ image_filename_of doc_name n (image_ext_of r))"
  by (simp add: ref_entry_def)

lemma file_entry_pair:
  "file_entry image_dir doc_name (n, r) =
     (path_join image_dir (image_filename_of doc_name n (image_ext_of r)), payload r)"
  by (simp add: file_entry_def)

lemma failure_entry_pair:
  "failure_entry wr image_dir doc_name (n, r) =
     (case outcome wr image_dir doc_name n r of
        None \<Rightarrow> None
      | Some e \<Rightarrow> Some (doc_name, failure_message n doc_name e))"
  by (simp add: failure_entry_def split: option.splits)

lemma loop_refs:
  "image_refs (fst (extract_loop wr image_dir doc_name rels st))
     = fold (\<lambda>a. AList.update (fst (ref_entry doc_name a)) (snd (ref_entry doc_name a)))
         (filter (succeeded wr image_dir doc_name) (attempts (file_image_count st) (reached rels)))
         (image_refs st)"
proof (induction rels arbitrary: st)
  case Nil
  then show ?case by simp
next
  case (Cons r rs)
  show ?case
  proof (cases rule: extract_rel_cases[where r = r and wr = wr and image_dir = image_dir and doc_name = doc_name and st = st])
    case (abort e)
    then show ?thesis by (simp add: extract_rel_abort)
  next
    case skip
    then show ?thesis using Cons.IH[of st] by (simp add: extract_rel_skip)
  next
    case ok
    then show ?thesis using Cons.IH by (simp add: extract_rel_ok ref_entry_pair)
  next
    case (failed e)
    then show ?thesis using Cons.IH by (simp add: extract_rel_failed)
  qed
qed

lemma loop_files:
  "files (fst (extract_loop wr image_dir doc_name rels st))
     = files st @ map (file_entry image_dir doc_name)
         (filter (succeeded wr image_dir doc_name) (attempts (file_image_count st) (reached rels)))"
proof (induction rels arbitrary: st)
  case Nil
  then show ?case by simp
next
  case (Cons r rs)
  show ?case
  proof (cases rule: extract_rel_cases[where r = r and wr = wr and image_dir = image_dir and doc_name = doc_name and st = st])
    case (abort e)
    then show ?thesis by (simp add: extract_rel_abort)
  next
    case skip
    then show ?thesis using Cons.IH[of st] by (simp add: extract_rel_skip)
  next
    case ok
    then show ?thesis using Cons.IH by (simp add: extract_rel_ok file_entry_pair)
  next
    case (failed e)
    then show ?thesis using Cons.IH by (simp add: extract_rel_failed)
  qed
qed

lemma loop_stats:
  "stats (fst (extract_loop wr image_dir doc_name rels st))
     = (stats st)\<lparr>failed_images := failed_images (stats st)
         @ List.map_filter (failure_entry wr image_dir doc_name)
             (attempts (file_image_count st) (reached rels))\<rparr>"
proof (induction rels arbitrary: st)
  case Nil
  then show ?case by (simp add: List.map_filter_simps)
next
  case (Cons r rs)
  show ?case
  proof (cases rule: extract_rel_cases[where r = r and wr = wr and image_dir = image_dir and doc_name = doc_name and st = st])
    case (abort e)
    then show ?thesis by (simp add: extract_rel_abort List.map_filter_simps)
  next
    case skip
    then show ?thesis using Cons.IH[of st] by (simp add: extract_rel_skip)
  next
    case ok
    then show ?thesis using Cons.IH
      by (simp add: extract_rel_ok failure_entry_pair List.map_filter_simps)
  next
    case (failed e)
    then show ?thesis using Cons.IH
      by (simp add: extract_rel_failed failure_entry_pair List.map_filter_simps)
  qed
qed

lemma fold_update_fresh:
  assumes "distinct (map fst kvs)" "set (map fst kvs) \<inter> set (map fst al) = {}"
  shows "fold (\<lambda>a. AList.update (fst a) (snd a)) kvs al = al @ kvs"
  using assms
proof (induction kvs arbitrary: al)
  case Nil
  then show ?case by simp
next
  case (Cons kv kvs)
  have fresh: "fst kv \<notin> fst ` set al" using Cons.prems(2) by auto
  have upd: "AList.update (fst kv) (snd kv) al = al @ [kv]"
    using fresh by (induction al) auto
  have "fold (\<lambda>a. AList.update (fst a) (snd a)) kvs (al @ [kv]) = (al @ [kv]) @ kvs"
    using Cons.prems by (intro Cons.IH) auto
  with upd show ?case by simp
qed

lemma fold_update_map:
  "fold (\<lambda>a. AList.update (fst (f a)) (snd (f a))) xs al
     = fold (\<lambda>a. AList.update (fst a) (snd a)) (map f xs) al"
  by (induction xs arbitrary: al) auto

lemma ref_entry_id: "fst \<circ> ref_entry doc_name = rId \<circ> snd"
  by (rule ext) (simp add: ref_entry_def)

lemma reached_subset: "set (reached rels) \<subseteq> set rels"
  by (induction rels) auto

lemma distinct_reached: "distinct (map rId rels) \<Longrightarrow> distinct (map rId (reached rels))"
proof (induction rels)
  case Nil
  then show ?case by simp
next
  case (Cons r rs)
  have "set (reached rs) \<subseteq> set rs" by (rule reached_subset)
  with Cons show ?case by auto
qed

lemma distinct_attempt_ids:
  assumes "distinct (map rId rels)"
  shows "distinct (map fst (map (ref_entry doc_name)
           (filter (succeeded wr image_dir doc_name) (attempts n rels))))"
proof -
  have "distinct (map rId (filter attempted rels))"
    using assms by (rule distinct_map_filter)
  then have "distinct (map rId (map snd (attempts n rels)))"
    by (simp only: attempts_rels)
  then have "distinct (map (rId \<circ> snd) (attempts n rels))"
    by (simp only: map_map)
  then have "distinct (map (rId \<circ> snd)
               (filter (succeeded wr image_dir doc_name) (attempts n rels)))"
    by (rule distinct_map_filter)
  then show ?thesis by (simp only: map_map ref_entry_id)
qed

lemma extracted_refs:
  assumes "distinct (map rId rels)"
  shows "image_refs (fst (extract_loop wr image_dir doc_name rels
            \<lparr>image_refs = [], file_image_count = 0, stats = stats0, files = []\<rparr>))
         = map (ref_entry doc_name)
             (filter (succeeded wr image_dir doc_name) (attempts 0 (reached rels)))"
proof -
  let ?ok = "filter (succeeded wr image_dir doc_name) (attempts 0 (reached rels))"
  have d: "distinct (map rId (reached rels))"
    using assms by (rule distinct_reached)
  have "image_refs (fst (extract_loop wr image_dir doc_name rels
            \<lparr>image_refs = [], file_image_count = 0, stats = stats0, files = []\<rparr>))
        = fold (\<lambda>a. AList.update (fst (ref_entry doc_name a)) (snd (ref_entry doc_name a))) ?ok []"
    by (simp add: loop_refs)
  also have "\<dots> = fold (\<lambda>a. AList.update (fst a) (snd a)) (map (ref_entry doc_name) ?ok) []"
    by (rule fold_update_map)
  also have "\<dots> = [] @ map (ref_entry doc_name) ?ok"
    by (rule fold_update_fresh) (simp_all only: distinct_attempt_ids[OF d] list.map list.set Int_empty_right)
  finally show ?thesis by simp
qed

lemma extracted_count:
  "file_image_count (fst (extract_loop wr image_dir doc_name rels
      \<lparr>image_refs = [], file_image_count = 0, stats = stats0, files = []\<rparr>))
   = length (filter attempted (reached rels))"
  by (simp add: loop_count)

lemma extracted_files:
  "files (fst (extract_loop wr image_dir doc_name rels
      \<lparr>image_refs = [], file_image_count = 0, stats = stats0, files = []\<rparr>))
   = map (file_entry image_dir doc_name)
       (filter (succeeded wr image_dir doc_name) (attempts 0 (reached rels)))"
  by (simp add: loop_files)

lemma extracted_stats:
  "stats (fst (extract_loop wr image_dir doc_name rels
      \<lparr>image_refs = [], file_image_count = 0, stats = stats0, files = []\<rparr>))
   = stats0\<lparr>failed_images := failed_images stats0
       @ List.map_filter (failure_entry wr image_dir doc_name) (attempts 0 (reached rels))\<rparr>"
  by (simp add: loop_stats)

lemma extract_images_result:
  assumes "extract_images wr image_dir doc_name rels stats0 = (refs, stats1, written)"
  shows "refs = image_refs (fst (extract_loop wr image_dir doc_name rels
            \<lparr>image_refs = [], file_image_count = 0, stats = stats0, files = []\<rparr>))"
    and "written = files (fst (extract_loop wr image_dir doc_name rels
            \<lparr>image_refs = [], file_image_count = 0, stats = stats0, files = []\<rparr>))"
    and "failed_images stats1 = failed_images stats0
           @ List.map_filter (failure_entry wr image_dir doc_name) (attempts 0 (reached rels))
           @ abort_entry doc_name rels"
    and "abort_of rels = None \<Longrightarrow> file_image_counts stats1 =
           AList.update doc_name (length (filter attempted rels)) (file_image_counts stats0)"
    and "abort_of rels = None \<Longrightarrow>
           total_images stats1 = total_images stats0 + length (filter attempted rels)"
    and "abort_of rels \<noteq> None \<Longrightarrow> file_image_counts stats1 = file_image_counts stats0"
    and "abort_of rels \<noteq> None \<Longrightarrow> total_images stats1 = total_images stats0"
proof -
  let ?l = "extract_loop wr image_dir doc_name rels
            \<lparr>image_refs = [], file_image_count = 0, stats = stats0, files = []\<rparr>"
  have l: "?l = (fst ?l, abort_of rels)"
    using loop_abort[of wr image_dir doc_name rels
        "\<lparr>image_refs = [], file_image_count = 0, stats = stats0, files = []\<rparr>"]
    by (cases ?l) simp
  show "refs = image_refs (fst ?l)"
    using assms by (cases "abort_of rels") (auto simp: extract_images_def l[symmetric] split: prod.splits option.splits)
  show "written = files (fst ?l)"
    using assms by (cases "abort_of rels") (auto simp: extract_images_def split: prod.splits option.splits)
  have s: "stats1 = (case abort_of rels of
             None \<Rightarrow> (stats (fst ?l))\<lparr>file_image_counts :=
                        AList.update doc_name (file_image_count (fst ?l)) (file_image_counts (stats (fst ?l))),
                      total_images := total_images (stats (fst ?l)) + file_image_count (fst ?l)\<rparr>
           | Some e \<Rightarrow> (stats (fst ?l))\<lparr>failed_images :=
                        failed_images (stats (fst ?l)) @ [(doc_name, process_failure_message doc_name e)]\<rparr>)"
    using assms l by (auto simp: extract_images_def split: prod.splits option.splits)
  show "failed_images stats1 = failed_images stats0
           @ List.map_filter (failure_entry wr image_dir doc_name) (attempts 0 (reached rels))
           @ abort_entry doc_name rels"
    unfolding s by (cases "abort_of rels") (simp_all add: extracted_stats abort_entry_def)
  show "abort_of rels = None \<Longrightarrow> file_image_counts stats1 =
           AList.update doc_name (length (filter attempted rels)) (file_image_counts stats0)"
    unfolding s by (simp add: extracted_stats extracted_count reached_all)
  show "abort_of rels = None \<Longrightarrow>
           total_images stats1 = total_images stats0 + length (filter attempted rels)"
    unfolding s by (simp add: extracted_stats extracted_count reached_all)
  show "abort_of rels \<noteq> None \<Longrightarrow> file_image_counts stats1 = file_image_counts stats0"
    unfolding s by (cases "abort_of rels") (simp_all add: extracted_stats)
  show "abort_of rels \<noteq> None \<Longrightarrow> total_images stats1 = total_images stats0"
    unfolding s by (cases "abort_of rels") (simp_all add: extracted_stats)
qed

section \<open>Sequence numbers and image counts\<close>




text \<open>
  Claim C6. The loop gets to the relationships before the first one whose condition
  raises, to all of them when none does. Among these, the relationships for which an
  extraction is started are the image relationships with a part, a blob and at least one
  byte, and they get the sequence numbers 1, 2, 3 and so on in their order, whatever
  becomes of the writes: a failed write keeps its number, and a relationship with an empty
  payload gets none. The dictionary returned holds exactly the attempts whose write
  succeeded, each under its relationship id with the path that carries its number, the
  files written are those of the same attempts, and every failed attempt is recorded with
  its number, followed by the record of the exception that left the loop, if one did. The
  ids of the relationships are the keys of a dictionary, so they are distinct.
\<close>

theorem sequence_numbers:
  assumes "distinct (map rId rels)"
      and "extract_images wr image_dir doc_name rels stats0 = (refs, stats1, written)"
  shows "map fst (attempts 0 (reached rels))
           = [1..<Suc (length (filter attempted (reached rels)))]
       \<and> map snd (attempts 0 (reached rels)) = filter attempted (reached rels)
       \<and> refs = map (ref_entry doc_name)
                  (filter (succeeded wr image_dir doc_name) (attempts 0 (reached rels)))
       \<and> written = map (file_entry image_dir doc_name)
                     (filter (succeeded wr image_dir doc_name) (attempts 0 (reached rels)))
       \<and> failed_images stats1 = failed_images stats0
           @ List.map_filter (failure_entry wr image_dir doc_name) (attempts 0 (reached rels))
           @ abort_entry doc_name rels
       \<and> (abort_of rels = None \<longrightarrow> reached rels = rels)
       \<and> (\<forall>e. abort_of rels = Some e \<longrightarrow>
            (\<exists>r rest. rels = reached rels @ r # rest \<and> image_data_of r = Inl e))
       \<and> (\<forall>r\<in>set (reached rels). \<not> isl (image_data_of r))"
proof (intro conjI allI impI)
  show "map fst (attempts 0 (reached rels))
          = [1..<Suc (length (filter attempted (reached rels)))]"
    using attempts_numbers[of 0 "reached rels"] by simp
  show "map snd (attempts 0 (reached rels)) = filter attempted (reached rels)"
    by (rule attempts_rels)
  show "refs = map (ref_entry doc_name)
                  (filter (succeeded wr image_dir doc_name) (attempts 0 (reached rels)))"
    using extract_images_result(1)[OF assms(2)] extracted_refs[OF assms(1)] by simp
  show "written = map (file_entry image_dir doc_name)
                     (filter (succeeded wr image_dir doc_name) (attempts 0 (reached rels)))"
    using extract_images_result(2)[OF assms(2)] extracted_files by simp
  show "failed_images stats1 = failed_images stats0
           @ List.map_filter (failure_entry wr image_dir doc_name) (attempts 0 (reached rels))
           @ abort_entry doc_name rels"
    by (rule extract_images_result(3)[OF assms(2)])
  show "reached rels = rels" if "abort_of rels = None"
    using that by (rule reached_all)
  show "\<exists>r rest. rels = reached rels @ r # rest \<and> image_data_of r = Inl e"
    if "abort_of rels = Some e" for e
    using that by (rule reached_stops)
  show "\<forall>r\<in>set (reached rels). \<not> isl (image_data_of r)"
    by (rule reached_no_abort)
qed

text \<open>
  The theorem at six image relationships of a document \<open>doc\<close>: the write of the second
  fails, the third has no bytes, and the fifth is a linked image, on whose target the
  parser raises. The files written carry the numbers 1 and 3, and the loop never gets to
  the sixth.
\<close>

theorem sequence_numbers_witness:
  "extract_images
     (\<lambda>p d. if p = ''out/images/doc_image_2.png'' then Some ''disk full'' else None)
     ''out/images'' ''doc''
     [\<lparr>reltype = ''relationships/image'', rId = ''rId1'', target_ref = ''media/a.JPG'',
        target_part = Has (Part (Has ''ab''))\<rparr>,
      \<lparr>reltype = ''relationships/image'', rId = ''rId2'', target_ref = ''media/b.emf'',
        target_part = Has (Part (Has ''cd''))\<rparr>,
      \<lparr>reltype = ''relationships/image'', rId = ''rId3'', target_ref = ''media/c.png'',
        target_part = Has (Part (Has []))\<rparr>,
      \<lparr>reltype = ''relationships/image'', rId = ''rId4'', target_ref = ''media/d.png'',
        target_part = Has (Part (Has ''ef''))\<rparr>,
      \<lparr>reltype = ''relationships/image'', rId = ''rId5'', target_ref = ''https://example.org/e.png'',
        target_part = Raises ''target mode is External''\<rparr>,
      \<lparr>reltype = ''relationships/image'', rId = ''rId6'', target_ref = ''media/f.png'',
        target_part = Has (Part (Has ''gh''))\<rparr>]
     \<lparr>total_files = 1, successful_files = [], failed_files = [], total_images = 0,
      failed_images = [], file_image_counts = []\<rparr>
   = ([(''rId1'', ''./images/doc_image_1.jpg''), (''rId4'', ''./images/doc_image_3.png'')],
      \<lparr>total_files = 1, successful_files = [], failed_files = [], total_images = 0,
       failed_images = [(''doc'', ''Failed to extract image 2 from doc: disk full''),
                        (''doc'', ''Failed to process images in doc: target mode is External'')],
       file_image_counts = []\<rparr>,
      [(''out/images/doc_image_1.jpg'', ''ab''), (''out/images/doc_image_3.png'', ''ef'')])
   \<and> map fst (attempts 0 (reached
     [\<lparr>reltype = ''relationships/image'', rId = ''rId1'', target_ref = ''media/a.JPG'',
        target_part = Has (Part (Has ''ab''))\<rparr>,
      \<lparr>reltype = ''relationships/image'', rId = ''rId2'', target_ref = ''media/b.emf'',
        target_part = Has (Part (Has ''cd''))\<rparr>,
      \<lparr>reltype = ''relationships/image'', rId = ''rId3'', target_ref = ''media/c.png'',
        target_part = Has (Part (Has []))\<rparr>,
      \<lparr>reltype = ''relationships/image'', rId = ''rId4'', target_ref = ''media/d.png'',
        target_part = Has (Part (Has ''ef''))\<rparr>,
      \<lparr>reltype = ''relationships/image'', rId = ''rId5'', target_ref = ''https://example.org/e.png'',
        target_part = Raises ''target mode is External''\<rparr>,
      \<lparr>reltype = ''relationships/image'', rId = ''rId6'', target_ref = ''media/f.png'',
        target_part = Has (Part (Has ''gh''))\<rparr>])) = [1, 2, 3]"
proof -
  let ?wr = "\<lambda>p d. if p = ''out/images/doc_image_2.png'' then Some ''disk full'' else None"
  let ?rels = "[\<lparr>reltype = ''relationships/image'', rId = ''rId1'', target_ref = ''media/a.JPG'',
        target_part = Has (Part (Has ''ab''))\<rparr>,
      \<lparr>reltype = ''relationships/image'', rId = ''rId2'', target_ref = ''media/b.emf'',
        target_part = Has (Part (Has ''cd''))\<rparr>,
      \<lparr>reltype = ''relationships/image'', rId = ''rId3'', target_ref = ''media/c.png'',
        target_part = Has (Part (Has []))\<rparr>,
      \<lparr>reltype = ''relationships/image'', rId = ''rId4'', target_ref = ''media/d.png'',
        target_part = Has (Part (Has ''ef''))\<rparr>,
      \<lparr>reltype = ''relationships/image'', rId = ''rId5'', target_ref = ''https://example.org/e.png'',
        target_part = Raises ''target mode is External''\<rparr>,
      \<lparr>reltype = ''relationships/image'', rId = ''rId6'', target_ref = ''media/f.png'',
        target_part = Has (Part (Has ''gh''))\<rparr>]"
  let ?s0 = "\<lparr>total_files = 1, successful_files = [], failed_files = [], total_images = 0,
      failed_images = [], file_image_counts = []\<rparr>"
  let ?s1 = "\<lparr>total_files = 1, successful_files = [], failed_files = [], total_images = 0,
       failed_images = [(''doc'', ''Failed to extract image 2 from doc: disk full''),
                        (''doc'', ''Failed to process images in doc: target mode is External'')],
       file_image_counts = []\<rparr>"
  let ?refs = "[(''rId1'', ''./images/doc_image_1.jpg''), (''rId4'', ''./images/doc_image_3.png'')]"
  let ?w = "[(''out/images/doc_image_1.jpg'', ''ab''), (''out/images/doc_image_3.png'', ''ef'')]"
  have d: "distinct (map rId ?rels)" by simp
  have e: "extract_images ?wr ''out/images'' ''doc'' ?rels ?s0 = (?refs, ?s1, ?w)"
    by code_simp
  have k: "[1..<Suc (length (filter attempted (reached ?rels)))] = [1, 2, 3]" by code_simp
  have "map fst (attempts 0 (reached ?rels))
          = [1..<Suc (length (filter attempted (reached ?rels)))]"
    using sequence_numbers[OF d e] by (rule conjunct1)
  from this k have "map fst (attempts 0 (reached ?rels)) = [1, 2, 3]" by (rule trans)
  with e show ?thesis by (rule conjI)
qed




end
